theory Spec2Isabelle
  imports Main
begin

section \<open>JavaScript values used by the hooks\<close>

text \<open>
  Messages, keys and ids are character lists: the hooks only compare them, concatenate
  them and test them for emptiness. The scrape url is trimmed, and what
  \<open>String.prototype.trim\<close> strips is defined on the UTF-16 code units of a string, so
  a url is a list of code units; \<open>js\<close> turns a literal into one.
\<close>

type_synonym jstring = "nat list"

definition js :: "string \<Rightarrow> jstring" where
  "js s = map of_char s"

text \<open>
  An optional string field (\<open>error?: string\<close>) is an option; JavaScript treats both
  \<open>undefined\<close> (or \<open>null\<close>) and the empty string as falsy.
\<close>

definition truthy :: "'a list option \<Rightarrow> bool" where
  "truthy e = (case e of None \<Rightarrow> False | Some s \<Rightarrow> s \<noteq> [])"

text \<open>\<open>e || d\<close> on an optional string.\<close>

definition str_or :: "'a list option \<Rightarrow> 'a list \<Rightarrow> 'a list" where
  "str_or e d = (case e of None \<Rightarrow> d | Some s \<Rightarrow> if s = [] then d else s)"

text \<open>\<open>n || 0\<close> on a number: zero is falsy.\<close>

definition num_or :: "int \<Rightarrow> int \<Rightarrow> int" where
  "num_or n d = (if n = 0 then d else n)"

text \<open>
  \<open>String.prototype.trim\<close> strips the white space and the line terminators of
  ECMAScript from both ends: tab, line feed, vertical tab, form feed, carriage
  return, space, U+00A0, U+1680, U+2000 to U+200A, U+2028, U+2029, U+202F, U+205F,
  U+3000 and U+FEFF.
\<close>

definition isSpace :: "nat \<Rightarrow> bool" where
  "isSpace c =
     (c \<in> {9, 10, 11, 12, 13, 32, 160, 5760, 8232, 8233, 8239, 8287, 12288, 65279}
      \<or> (8192 \<le> c \<and> c \<le> 8202))"

definition trim :: "jstring \<Rightarrow> jstring" where
  "trim s = rev (dropWhile isSpace (rev (dropWhile isSpace s)))"

definition toLowerChar :: "char \<Rightarrow> char" where
  "toLowerChar c =
     (case map_of (zip ''ABCDEFGHIJKLMNOPQRSTUVWXYZ'' ''abcdefghijklmnopqrstuvwxyz'') c of
        Some l \<Rightarrow> l
      | None \<Rightarrow> c)"

definition toLowerCase :: "string \<Rightarrow> string" where
  "toLowerCase s = map toLowerChar s"

text \<open>Decimal rendering of a number inside a template literal.\<close>

fun show_nat :: "nat \<Rightarrow> string" where
  "show_nat n =
     (if n < 10 then [''0123456789'' ! n]
      else show_nat (n div 10) @ [''0123456789'' ! (n mod 10)])"

declare show_nat.simps [simp del]

definition show_int :: "int \<Rightarrow> string" where
  "show_int i = (if i < 0 then CHR ''-'' # show_nat (nat (- i)) else show_nat (nat i))"

section \<open>The API client (\<open>lib/api\<close>)\<close>

datatype wf_status = RUNNING | COMPLETED | FAILED | CANCELED | TERMINATED | TIMED_OUT | NOT_FOUND

text \<open>
  \<open>WorkflowStatusResponse["result"]\<close>; the per-item arrays \<open>processed\<close> and \<open>failed\<close>
  are only rendered, never inspected by the hooks, and are left out.
\<close>

record scrape_result =
  success :: bool
  total_found :: int
  new_orders :: int
  skipped_orders :: int
  processed_count :: int
  failed_count :: int

record wf_status_response =
  wsr_workflow_id :: string
  wsr_status :: wf_status
  wsr_result :: "scrape_result option"
  wsr_error :: "string option"

record scrape_triggered_response =
  str_status :: string
  workflow_id :: string
  str_message :: string

text \<open>What every client method resolves to: \<open>{ data?: T; error?: string; status: number }\<close>.\<close>

record 'a api_response =
  data :: "'a option"
  error :: "string option"
  http_status :: nat

datatype api_call =
    Health
  | GetOrders nat nat
  | DeleteOrder nat
  | TriggerUpload nat
  | TriggerAllUploads
  | ScrapeOrders jstring
  | GetWorkflowStatus string
  | GetSchedules
  | ToggleSchedule nat
  | SyncSchedules
  | GetCalls nat nat
  | GetScrapeConfig
  | UpdateScrapeConfig "jstring option"

record http_request =
  call :: api_call
  x_api_key :: "string option"

text \<open>
  \<open>ApiClient.request\<close>: the \<open>X-API-Key\<close> header is attached only for a non-empty key and
  never for the health check. The hooks call \<open>setApiKey(apiKey)\<close> right before each
  client method, so the key is passed along.
\<close>

definition request :: "string \<Rightarrow> api_call \<Rightarrow> http_request" where
  "request apiKey c =
     \<lparr>call = c, x_api_key = (if apiKey \<noteq> [] \<and> c \<noteq> Health then Some apiKey else None)\<rparr>"

section \<open>Observable effects\<close>

datatype toast_kind = ToastSuccess | ToastError

datatype StatusType = Idle | Loading | Success | Error

text \<open>
  Everything a hook does to the outside, in program order: a request handed to the
  client, the moment an awaited response arrives, a \<open>setTimeout\<close> pause that is awaited,
  a call of \<open>showToast\<close>, and a call of the \<open>onScrapeComplete\<close> callback.
\<close>

datatype effect =
    Request http_request
  | Awaited api_call
  | Sleep nat
  | ShowToast string toast_kind
  | OnScrapeComplete

section \<open>Polling a workflow (\<open>useScraping.pollWorkflowStatus\<close>)\<close>

definition maxAttempts :: nat where
  "maxAttempts = 120"

definition status_name :: "wf_status \<Rightarrow> string" where
  "status_name st =
     (case st of
        RUNNING \<Rightarrow> ''RUNNING''
      | COMPLETED \<Rightarrow> ''COMPLETED''
      | FAILED \<Rightarrow> ''FAILED''
      | CANCELED \<Rightarrow> ''CANCELED''
      | TERMINATED \<Rightarrow> ''TERMINATED''
      | TIMED_OUT \<Rightarrow> ''TIMED_OUT''
      | NOT_FOUND \<Rightarrow> ''NOT_FOUND'')"

text \<open>How one iteration of the loop ends: \<open>return\<close>, \<open>throw new Error(msg)\<close>, or fall through.\<close>

datatype poll_step = Return "scrape_result option" | Throw string | Continue

text \<open>The body of the \<open>while\<close> loop between the request and the pause.\<close>

definition pollAttempt :: "wf_status_response api_response \<Rightarrow> poll_step" where
  "pollAttempt r =
     (if truthy (error r) \<or> data r = None
      then Throw (str_or (error r) ''Failed to get workflow status'')
      else case data r of
        None \<Rightarrow> Throw (str_or (error r) ''Failed to get workflow status'')
      | Some d \<Rightarrow>
          if wsr_status d = COMPLETED then Return (wsr_result d)
          else if wsr_status d = FAILED \<or> wsr_status d = CANCELED \<or> wsr_status d = TERMINATED
          then Throw (str_or (wsr_error d) (''Workflow '' @ toLowerCase (status_name (wsr_status d))))
          else Continue)"

definition pollEffects :: "string \<Rightarrow> string \<Rightarrow> effect list" where
  "pollEffects apiKey workflowId =
     [Request (request apiKey (GetWorkflowStatus workflowId)), Awaited (GetWorkflowStatus workflowId)]"

text \<open>
  The loop. \<open>env n\<close> is the response to the poll issued when \<open>attempts = n\<close>. The result
  is \<open>Inr\<close> the returned payload or \<open>Inl\<close> the message of the thrown error, together
  with the effects in order.
\<close>

function pollLoop ::
  "string \<Rightarrow> (nat \<Rightarrow> wf_status_response api_response) \<Rightarrow> string \<Rightarrow> nat \<Rightarrow> effect list
     \<Rightarrow> (string + scrape_result option) \<times> effect list" where
  "pollLoop apiKey env workflowId attempts tr =
     (if attempts < maxAttempts then
        (case pollAttempt (env attempts) of
           Return res \<Rightarrow> (Inr res, tr @ pollEffects apiKey workflowId)
         | Throw msg \<Rightarrow> (Inl msg, tr @ pollEffects apiKey workflowId)
         | Continue \<Rightarrow>
             pollLoop apiKey env workflowId (attempts + 1)
               (tr @ pollEffects apiKey workflowId @ [Sleep 5000]))
      else (Inl ''Workflow timed out'', tr))"
  by pat_completeness auto
termination
  by (relation "measure (\<lambda>(apiKey, env, workflowId, attempts, tr). maxAttempts - attempts)") auto

declare pollLoop.simps [simp del]

definition pollWorkflowStatus ::
  "string \<Rightarrow> (nat \<Rightarrow> wf_status_response api_response) \<Rightarrow> string
     \<Rightarrow> (string + scrape_result option) \<times> effect list" where
  "pollWorkflowStatus apiKey env workflowId = pollLoop apiKey env workflowId 0 []"

definition isPoll :: "effect \<Rightarrow> bool" where
  "isPoll e = (case e of Request q \<Rightarrow> (case call q of GetWorkflowStatus w \<Rightarrow> True | _ \<Rightarrow> False) | _ \<Rightarrow> False)"

text \<open>A response that carries a status payload and no client error.\<close>

definition hasStatus :: "wf_status_response api_response \<Rightarrow> wf_status \<Rightarrow> bool" where
  "hasStatus r st = (\<not> truthy (error r) \<and> (case data r of None \<Rightarrow> False | Some d \<Rightarrow> wsr_status d = st))"

section \<open>Running a scrape (\<open>useScraping.runScrape\<close>)\<close>

text \<open>Every hook state carries the effects it has produced so far.\<close>

record effects =
  trace :: "effect list"

definition emit :: "effect \<Rightarrow> 'a effects_scheme \<Rightarrow> 'a effects_scheme" where
  "emit e s = s\<lparr>trace := trace s @ [e]\<rparr>"

definition emits :: "effect list \<Rightarrow> 'a effects_scheme \<Rightarrow> 'a effects_scheme" where
  "emits es s = s\<lparr>trace := trace s @ es\<rparr>"

definition DEFAULT_SCRAPE_URL :: jstring where
  "DEFAULT_SCRAPE_URL =
     js ''https://hapodu.duisburg.de/risource/do/order/list/editable?initSearch=true&reset=false''"

text \<open>
  A pending \<open>setTimeout\<close> of \<open>handleScrapeUrlChange\<close>: its handle, the time it is
  due, and what its callback \<open>() => saveUrlToBackend(url)\<close> closes over, namely the
  \<open>apiKey\<close> of the render in which the edit was made and the url of the edit.
\<close>

record save_timer =
  tm_handle :: nat
  tm_due :: nat
  tm_apiKey :: string
  tm_url :: jstring

text \<open>
  The state of \<open>useScraping\<close>. \<open>apiKeyProp\<close> is the \<open>apiKey\<close> argument of the latest
  render, that is the credential the page holds; \<open>saveTimeoutRef\<close> holds the handle of
  the last \<open>setTimeout\<close>; \<open>timers\<close> are the hook's timeouts that are still pending;
  \<open>now\<close> is the clock in milliseconds.
\<close>

record scraping_state = effects +
  apiKeyProp :: string
  scrapeStatus :: StatusType
  scrapeResult :: "scrape_result option"
  scrapeUrl :: jstring
  currentWorkflowId :: "string option"
  saveTimeoutRef :: "nat option"
  timers :: "save_timer list"
  nextTimer :: nat
  now :: nat

definition initialScraping :: scraping_state where
  "initialScraping =
     \<lparr>trace = [], apiKeyProp = [], scrapeStatus = Idle, scrapeResult = None,
      scrapeUrl = DEFAULT_SCRAPE_URL, currentWorkflowId = None, saveTimeoutRef = None,
      timers = [], nextTimer = 1, now = 0\<rparr>"

text \<open>\<open>ApiClient.scrapeOrders\<close>: an empty url is replaced by the default in the body.\<close>

definition scrapeOrders :: "jstring \<Rightarrow> api_call" where
  "scrapeOrders orderListUrl = ScrapeOrders (str_or (Some orderListUrl) DEFAULT_SCRAPE_URL)"

text \<open>The toast shown for a completed workflow that delivered a result payload.\<close>

definition doneToast :: "scrape_result \<Rightarrow> effect" where
  "doneToast res =
     (let newCount = num_or (processed_count res) 0;
          skippedCount = num_or (skipped_orders res) 0;
          failedCount = num_or (failed_count res) 0
      in if failedCount > 0
         then ShowToast (''Done: '' @ show_int newCount @ '' processed, '' @ show_int skippedCount
                          @ '' skipped, '' @ show_int failedCount @ '' failed'') ToastError
         else ShowToast (''Done: '' @ show_int newCount @ '' processed, '' @ show_int skippedCount
                          @ '' skipped'') ToastSuccess)"

definition runScrape ::
  "string \<Rightarrow> scrape_triggered_response api_response
     \<Rightarrow> (nat \<Rightarrow> wf_status_response api_response) \<Rightarrow> scraping_state \<Rightarrow> scraping_state" where
  "runScrape apiKey startResp env s =
     (if apiKey = [] then emit (ShowToast ''API key required'' ToastError) s
      else if trim (scrapeUrl s) = [] then emit (ShowToast ''Order list URL required'' ToastError) s
      else
        let s1 = s\<lparr>scrapeStatus := Loading, scrapeResult := None, currentWorkflowId := None\<rparr>;
            s2 = emits [Request (request apiKey (scrapeOrders (scrapeUrl s))),
                        Awaited (scrapeOrders (scrapeUrl s))] s1
        in case data startResp of
             None \<Rightarrow>
               emit (ShowToast (str_or (error startResp) ''Failed to start scraping'') ToastError)
                 (s2\<lparr>scrapeStatus := Error\<rparr>)
           | Some d \<Rightarrow>
               let s3 = emit (ShowToast ''Workflow started - please wait...'' ToastSuccess)
                          (s2\<lparr>currentWorkflowId := Some (workflow_id d)\<rparr>);
                   polled = pollWorkflowStatus apiKey env (workflow_id d);
                   s4 = emits (snd polled) s3;
                   s5 = (case fst polled of
                           Inr (Some res) \<Rightarrow>
                             emit OnScrapeComplete
                               (emit (doneToast res)
                                  (s4\<lparr>scrapeResult := Some res, scrapeStatus := Success\<rparr>))
                         | Inr None \<Rightarrow>
                             emit OnScrapeComplete
                               (emit (ShowToast ''Workflow completed'' ToastSuccess)
                                  (s4\<lparr>scrapeStatus := Success\<rparr>))
                         | Inl msg \<Rightarrow>
                             emit (ShowToast msg ToastError) (s4\<lparr>scrapeStatus := Error\<rparr>))
               in s5\<lparr>currentWorkflowId := None\<rparr>)"

section \<open>Saving the scrape url (\<open>useScraping.saveUrlToBackend\<close>, \<open>handleScrapeUrlChange\<close>)\<close>

record scrape_config =
  custom_order_list_url :: "jstring option"
  updated_at :: "string option"

text \<open>The value handed to \<open>updateScrapeConfig\<close>; \<open>None\<close> is \<open>null\<close>.\<close>

definition urlToSave :: "jstring \<Rightarrow> jstring option" where
  "urlToSave url =
     (if trim url = DEFAULT_SCRAPE_URL then None
      else if trim url = [] then None else Some (trim url))"

text \<open>
  \<open>server v\<close> is the response to \<open>updateScrapeConfig(v)\<close>. The response to
  \<open>syncSchedules\<close> is awaited and dropped.
\<close>

definition saveUrlToBackend ::
  "string \<Rightarrow> (jstring option \<Rightarrow> scrape_config api_response) \<Rightarrow> jstring
     \<Rightarrow> 'a effects_scheme \<Rightarrow> 'a effects_scheme" where
  "saveUrlToBackend apiKey server url s =
     (if apiKey = [] then s
      else
        let v = urlToSave url;
            s1 = emits [Request (request apiKey (UpdateScrapeConfig v)),
                        Awaited (UpdateScrapeConfig v)] s
        in if truthy (error (server v))
           then emit (ShowToast ''Failed to save URL'' ToastError) s1
           else emit (ShowToast ''URL saved'' ToastSuccess)
                  (emits [Request (request apiKey SyncSchedules), Awaited SyncSchedules] s1))"

definition clearTimeout :: "nat \<Rightarrow> scraping_state \<Rightarrow> scraping_state" where
  "clearTimeout h s = s\<lparr>timers := filter (\<lambda>tm. tm_handle tm \<noteq> h) (timers s)\<rparr>"

text \<open>
  An edit of the url field, made in a render whose key is \<open>apiKey\<close>: the draft is set,
  the pending save is cancelled, a new one is scheduled. The new callback keeps the
  \<open>saveUrlToBackend\<close> of this render, and with it this \<open>apiKey\<close>.
\<close>

definition handleScrapeUrlChange :: "string \<Rightarrow> jstring \<Rightarrow> scraping_state \<Rightarrow> scraping_state" where
  "handleScrapeUrlChange apiKey url s =
     (let s1 = s\<lparr>scrapeUrl := url\<rparr>;
          s2 = (case saveTimeoutRef s1 of Some h \<Rightarrow> clearTimeout h s1 | None \<Rightarrow> s1);
          h = nextTimer s2
      in s2\<lparr>timers := timers s2
                @ [\<lparr>tm_handle = h, tm_due = now s2 + 1000, tm_apiKey = apiKey, tm_url = url\<rparr>],
             nextTimer := h + 1,
             saveTimeoutRef := Some h\<rparr>)"

text \<open>
  The clock moves to \<open>t\<close>: the callbacks of the timeouts that are due run in the order
  they were scheduled; each calls \<open>saveUrlToBackend\<close> with the key and the url it
  captured.
\<close>

definition advanceTo ::
  "(jstring option \<Rightarrow> scrape_config api_response) \<Rightarrow> nat \<Rightarrow> scraping_state \<Rightarrow> scraping_state" where
  "advanceTo server t s =
     fold (\<lambda>tm. saveUrlToBackend (tm_apiKey tm) server (tm_url tm))
       (filter (\<lambda>tm. tm_due tm \<le> t) (timers s))
       (s\<lparr>timers := filter (\<lambda>tm. \<not> tm_due tm \<le> t) (timers s), now := max (now s) t\<rparr>)"

text \<open>
  A series of edits made while the page's key is \<open>apiKey\<close>, each given with the time at
  which it happens.
\<close>

fun edits ::
  "string \<Rightarrow> (jstring option \<Rightarrow> scrape_config api_response) \<Rightarrow> (nat \<times> jstring) list
     \<Rightarrow> scraping_state \<Rightarrow> scraping_state" where
  "edits apiKey server [] s = s"
| "edits apiKey server ((t, url) # es) s =
     edits apiKey server es (handleScrapeUrlChange apiKey url (advanceTo server t s))"

text \<open>Edits at non-decreasing times, each less than 1000 ms after the one before (at \<open>t0\<close>).\<close>

fun burst :: "nat \<Rightarrow> (nat \<times> jstring) list \<Rightarrow> bool" where
  "burst t0 [] = True"
| "burst t0 ((t, url) # es) = (t0 \<le> t \<and> t < t0 + 1000 \<and> burst t es)"

text \<open>
  The hook is rendered with the key \<open>apiKey\<close>. When the key has changed, the effect that
  loads the saved url runs: it returns at once for the empty key and otherwise
  requests the config. \<open>loadSavedUrlResolved\<close> is that effect after its \<open>await\<close>.
\<close>

definition render :: "string \<Rightarrow> scraping_state \<Rightarrow> scraping_state" where
  "render apiKey s =
     (if apiKey = apiKeyProp s then s
      else if apiKey = [] then s\<lparr>apiKeyProp := apiKey\<rparr>
      else emit (Request (request apiKey GetScrapeConfig)) (s\<lparr>apiKeyProp := apiKey\<rparr>))"

definition loadSavedUrlResolved :: "scrape_config api_response \<Rightarrow> scraping_state \<Rightarrow> scraping_state" where
  "loadSavedUrlResolved r s =
     (let s1 = emit (Awaited GetScrapeConfig) s
      in case data r of
           None \<Rightarrow> s1
         | Some d \<Rightarrow>
             (case custom_order_list_url d of
                None \<Rightarrow> s1
              | Some url \<Rightarrow> if url = [] then s1 else s1\<lparr>scrapeUrl := url\<rparr>))"

text \<open>
  What happens to the hook on the page: the key field changes (a new render), the
  saved url arrives, the url field is edited, time passes.
\<close>

datatype scraping_event =
    KeyChanged string
  | ConfigLoaded "scrape_config api_response"
  | UrlEdited jstring
  | ClockAt nat

fun scrapingStep ::
  "(jstring option \<Rightarrow> scrape_config api_response) \<Rightarrow> scraping_event
     \<Rightarrow> scraping_state \<Rightarrow> scraping_state" where
  "scrapingStep server (KeyChanged k) s = render k s"
| "scrapingStep server (ConfigLoaded r) s = loadSavedUrlResolved r s"
| "scrapingStep server (UrlEdited url) s = handleScrapeUrlChange (apiKeyProp s) url s"
| "scrapingStep server (ClockAt t) s = advanceTo server t s"

definition scrapingRun ::
  "(jstring option \<Rightarrow> scrape_config api_response) \<Rightarrow> scraping_event list
     \<Rightarrow> scraping_state \<Rightarrow> scraping_state" where
  "scrapingRun server evs s = fold (scrapingStep server) evs s"

definition isPersist :: "effect \<Rightarrow> bool" where
  "isPersist e =
     (case e of Request q \<Rightarrow> (case call q of UpdateScrapeConfig v \<Rightarrow> True | _ \<Rightarrow> False) | _ \<Rightarrow> False)"


section \<open>The orders store (\<open>useOrders\<close>)\<close>

definition PAGE_SIZE :: nat where
  "PAGE_SIZE = 10"

record order =
  o_id :: nat
  o_order_id :: string
  o_status :: string
  o_belnr :: "string option"

record order_list_response =
  ol_orders :: "order list"
  ol_total :: nat


record upload_triggered_response =
  ut_status :: string
  ut_workflow_id :: string
  ut_order_id :: nat

text \<open>
  The state of \<open>useOrders\<close> that the fetch, delete and upload actions touch.
  \<open>inflight\<close> lists the \<open>getOrders\<close> requests (skip, limit) whose response has not
  arrived yet; \<open>refetchTimers\<close> lists the delayed \<open>fetchOrders\<close> calls (delay, page).
\<close>

record orders_state = effects +
  orders :: "order list"
  ordersTotal :: nat
  ordersStatus :: StatusType
  currentPage :: nat
  pendingUploads :: nat
  inflight :: "(nat \<times> nat) list"
  refetchTimers :: "(nat \<times> nat) list"

definition initialOrders :: orders_state where
  "initialOrders =
     \<lparr>trace = [], orders = [], ordersTotal = 0, ordersStatus = Idle, currentPage = 0,
      pendingUploads = 0, inflight = [], refetchTimers = []\<rparr>"

text \<open>\<open>fetchOrders\<close> up to its \<open>await\<close>: the guard, the status, the request.\<close>

definition fetchOrders :: "string \<Rightarrow> nat \<Rightarrow> orders_state \<Rightarrow> orders_state" where
  "fetchOrders apiKey page s =
     (if apiKey = [] then s
      else
        let skip = page * PAGE_SIZE
        in (emit (Request (request apiKey (GetOrders skip PAGE_SIZE))) (s\<lparr>ordersStatus := Loading\<rparr>))
             \<lparr>inflight := inflight s @ [(skip, PAGE_SIZE)]\<rparr>)"

text \<open>\<open>fetchOrders\<close> after its \<open>await\<close>, run with the response \<open>r\<close>.\<close>

definition fetchOrdersResolved ::
  "order_list_response api_response \<Rightarrow> orders_state \<Rightarrow> orders_state" where
  "fetchOrdersResolved r s =
     (case data r of
        Some d \<Rightarrow>
          s\<lparr>orders := ol_orders d, ordersTotal := ol_total d, ordersStatus := Success,
            pendingUploads := length (filter (\<lambda>x. o_status x = ''converted'') (ol_orders d))\<rparr>
      | None \<Rightarrow>
          emit (ShowToast (str_or (error r) ''Failed to fetch orders'') ToastError)
            (s\<lparr>orders := [], ordersStatus := Error\<rparr>))"

definition goToPage :: "string \<Rightarrow> nat \<Rightarrow> orders_state \<Rightarrow> orders_state" where
  "goToPage apiKey page s = fetchOrders apiKey page (s\<lparr>currentPage := page\<rparr>)"

text \<open>
  The response to the \<open>i\<close>-th request in flight arrives: \<open>server skip limit\<close> is what
  the server answers to \<open>getOrders(skip, limit)\<close>.
\<close>

definition resolveOrders ::
  "(nat \<Rightarrow> nat \<Rightarrow> order_list_response api_response) \<Rightarrow> nat \<Rightarrow> orders_state \<Rightarrow> orders_state" where
  "resolveOrders server i s =
     (if i < length (inflight s) then
        (case inflight s ! i of
           (skip, limit) \<Rightarrow>
             fetchOrdersResolved (server skip limit)
               (emit (Awaited (GetOrders skip limit))
                  (s\<lparr>inflight := take i (inflight s) @ drop (Suc i) (inflight s)\<rparr>)))
      else s)"

datatype store_event = GoToPage nat | Resolve nat

fun ordersStep ::
  "string \<Rightarrow> (nat \<Rightarrow> nat \<Rightarrow> order_list_response api_response) \<Rightarrow> store_event
     \<Rightarrow> orders_state \<Rightarrow> orders_state" where
  "ordersStep apiKey server (GoToPage n) s = goToPage apiKey n s"
| "ordersStep apiKey server (Resolve i) s = resolveOrders server i s"

definition ordersRun ::
  "string \<Rightarrow> (nat \<Rightarrow> nat \<Rightarrow> order_list_response api_response) \<Rightarrow> store_event list
     \<Rightarrow> orders_state \<Rightarrow> orders_state" where
  "ordersRun apiKey server evs s = fold (ordersStep apiKey server) evs s"




section \<open>The calls store (\<open>useCalls\<close>)\<close>

record call_item =
  c_id :: nat
  c_call_id :: string
  c_status :: string

record call_list_response =
  cl_calls :: "call_item list"
  cl_total :: nat

record calls_state = effects +
  calls :: "call_item list"
  callsTotal :: nat
  callsStatus :: StatusType
  callsPage :: nat
  callsInflight :: "(nat \<times> nat) list"

definition initialCalls :: calls_state where
  "initialCalls =
     \<lparr>trace = [], calls = [], callsTotal = 0, callsStatus = Idle, callsPage = 0, callsInflight = []\<rparr>"

definition fetchCalls :: "string \<Rightarrow> nat \<Rightarrow> calls_state \<Rightarrow> calls_state" where
  "fetchCalls apiKey page s =
     (if apiKey = [] then s
      else
        let skip = page * PAGE_SIZE
        in (emit (Request (request apiKey (GetCalls skip PAGE_SIZE))) (s\<lparr>callsStatus := Loading\<rparr>))
             \<lparr>callsInflight := callsInflight s @ [(skip, PAGE_SIZE)]\<rparr>)"

definition fetchCallsResolved ::
  "call_list_response api_response \<Rightarrow> calls_state \<Rightarrow> calls_state" where
  "fetchCallsResolved r s =
     (case data r of
        Some d \<Rightarrow> s\<lparr>calls := cl_calls d, callsTotal := cl_total d, callsStatus := Success\<rparr>
      | None \<Rightarrow>
          emit (ShowToast (str_or (error r) ''Failed to fetch calls'') ToastError)
            (s\<lparr>calls := [], callsStatus := Error\<rparr>))"

definition goToPageCalls :: "string \<Rightarrow> nat \<Rightarrow> calls_state \<Rightarrow> calls_state" where
  "goToPageCalls apiKey page s = fetchCalls apiKey page (s\<lparr>callsPage := page\<rparr>)"

definition resolveCalls ::
  "(nat \<Rightarrow> nat \<Rightarrow> call_list_response api_response) \<Rightarrow> nat \<Rightarrow> calls_state \<Rightarrow> calls_state" where
  "resolveCalls server i s =
     (if i < length (callsInflight s) then
        (case callsInflight s ! i of
           (skip, limit) \<Rightarrow>
             fetchCallsResolved (server skip limit)
               (emit (Awaited (GetCalls skip limit))
                  (s\<lparr>callsInflight := take i (callsInflight s) @ drop (Suc i) (callsInflight s)\<rparr>)))
      else s)"

fun callsStep ::
  "string \<Rightarrow> (nat \<Rightarrow> nat \<Rightarrow> call_list_response api_response) \<Rightarrow> store_event
     \<Rightarrow> calls_state \<Rightarrow> calls_state" where
  "callsStep apiKey server (GoToPage n) s = goToPageCalls apiKey n s"
| "callsStep apiKey server (Resolve i) s = resolveCalls server i s"

definition callsRun ::
  "string \<Rightarrow> (nat \<Rightarrow> nat \<Rightarrow> call_list_response api_response) \<Rightarrow> store_event list
     \<Rightarrow> calls_state \<Rightarrow> calls_state" where
  "callsRun apiKey server evs s = fold (callsStep apiKey server) evs s"

section \<open>Schedules (\<open>useSchedules\<close>)\<close>

record scrape_schedule =
  sch_id :: nat
  sch_hour :: nat
  sch_minute :: nat
  sch_enabled :: bool
  sch_time_display :: string



section \<open>Toasts (\<open>ToastContext\<close>)\<close>

record toast =
  toast_id :: nat
  toast_message :: string
  toast_type :: toast_kind

text \<open>
  \<open>removalTimers\<close> are the pending \<open>setTimeout\<close> callbacks, each with the time it is
  due and the id it will filter out.
\<close>

record toast_state =
  toasts :: "toast list"
  toastCounterRef :: nat
  removalTimers :: "(nat \<times> nat) list"

definition initialToasts :: toast_state where
  "initialToasts = \<lparr>toasts = [], toastCounterRef = 0, removalTimers = []\<rparr>"

text \<open>\<open>showToast\<close>, called when \<open>Date.now()\<close> is \<open>dateNow\<close>.\<close>

definition showToast :: "nat \<Rightarrow> string \<Rightarrow> toast_kind \<Rightarrow> toast_state \<Rightarrow> toast_state" where
  "showToast dateNow message type s =
     (let tid = dateNow * 1000 + toastCounterRef s mod 1000
      in s\<lparr>toasts := toasts s @ [\<lparr>toast_id = tid, toast_message = message, toast_type = type\<rparr>],
           toastCounterRef := toastCounterRef s + 1,
           removalTimers := removalTimers s @ [(dateNow + 4000, tid)]\<rparr>)"

text \<open>The callback of a removal timer.\<close>

definition removeToast :: "nat \<Rightarrow> toast_state \<Rightarrow> toast_state" where
  "removeToast tid s = s\<lparr>toasts := filter (\<lambda>t. toast_id t \<noteq> tid) (toasts s)\<rparr>"

text \<open>The clock reaches \<open>t\<close>: the removal timers that are due fire, in the order they were set.\<close>

definition expire :: "nat \<Rightarrow> toast_state \<Rightarrow> toast_state" where
  "expire t s =
     fold (\<lambda>tm. removeToast (snd tm))
       (filter (\<lambda>tm. fst tm \<le> t) (removalTimers s))
       (s\<lparr>removalTimers := filter (\<lambda>tm. \<not> fst tm \<le> t) (removalTimers s)\<rparr>)"

text \<open>A series of pushes, each with the value of \<open>Date.now()\<close> at which it happens.\<close>

fun pushes :: "(nat \<times> string \<times> toast_kind) list \<Rightarrow> toast_state \<Rightarrow> toast_state" where
  "pushes [] s = s"
| "pushes ((t, message, type) # ps) s = pushes ps (showToast t message type (expire t s))"

section \<open>Sample responses\<close>

text \<open>A status response as the client delivers it for a 2xx answer.\<close>

definition okStatus :: "wf_status \<Rightarrow> scrape_result option \<Rightarrow> string option \<Rightarrow> wf_status_response api_response" where
  "okStatus st res err =
     \<lparr>data = Some \<lparr>wsr_workflow_id = ''wf-1'', wsr_status = st, wsr_result = res, wsr_error = err\<rparr>,
      error = None, http_status = 200\<rparr>"

text \<open>
  The answer to a started scrape, a poll that failed in the client, and the result
  payload of the specification's partial-failure example.
\<close>

definition okStart :: "string \<Rightarrow> scrape_triggered_response api_response" where
  "okStart wid =
     \<lparr>data = Some \<lparr>str_status = ''triggered'', workflow_id = wid, str_message = ''started''\<rparr>,
      error = None, http_status = 200\<rparr>"

definition failedPoll :: "string \<Rightarrow> nat \<Rightarrow> wf_status_response api_response" where
  "failedPoll msg code = \<lparr>data = None, error = Some msg, http_status = code\<rparr>"

definition partialResult :: scrape_result where
  "partialResult =
     \<lparr>success = True, total_found = 5, new_orders = 5, skipped_orders = 0,
      processed_count = 3, failed_count = 2\<rparr>"

text \<open>Responses of \<open>updateScrapeConfig\<close>: a 2xx answer, and a failure reported by the client.\<close>

definition okConfig :: "jstring option \<Rightarrow> scrape_config api_response" where
  "okConfig v =
     \<lparr>data = Some \<lparr>custom_order_list_url = v, updated_at = Some ''2025-01-01T00:00:00''\<rparr>,
      error = None, http_status = 200\<rparr>"

definition failedConfig :: "jstring option \<Rightarrow> scrape_config api_response" where
  "failedConfig v = \<lparr>data = None, error = Some ''An error occurred'', http_status = 500\<rparr>"

text \<open>Recognisers for the requests that the properties count.\<close>

definition isSync :: "effect \<Rightarrow> bool" where
  "isSync e = (case e of Request q \<Rightarrow> call q = SyncSchedules | _ \<Rightarrow> False)"

text \<open>
  Exactly one save is pending, the one scheduled by the edit to \<open>u\<close> at time \<open>t\<close> in a
  render with key \<open>k\<close>, and the hook's reference points at it.
\<close>

definition pendingSave :: "scraping_state \<Rightarrow> nat \<Rightarrow> string \<Rightarrow> jstring \<Rightarrow> bool" where
  "pendingSave s t k u =
     (case timers s of
        [tm] \<Rightarrow>
          saveTimeoutRef s = Some (tm_handle tm) \<and> tm_due tm = t + 1000 \<and> tm_apiKey tm = k
          \<and> tm_url tm = u \<and> now s = t \<and> scrapeUrl s = u
      | _ \<Rightarrow> False)"

text \<open>
  Servers that answer every page request with one item whose id tells the page:
  \<open>skip + 1\<close>.
\<close>

definition pageServer :: "nat \<Rightarrow> nat \<Rightarrow> order_list_response api_response" where
  "pageServer skip limit =
     \<lparr>data = Some \<lparr>ol_orders = [\<lparr>o_id = skip + 1, o_order_id = ''A'', o_status = ''scraped'', o_belnr = None\<rparr>],
                    ol_total = 20\<rparr>,
      error = None, http_status = 200\<rparr>"

definition callPageServer :: "nat \<Rightarrow> nat \<Rightarrow> call_list_response api_response" where
  "callPageServer skip limit =
     \<lparr>data = Some \<lparr>cl_calls = [\<lparr>c_id = skip + 1, c_call_id = ''c'', c_status = ''received''\<rparr>],
                    cl_total = 20\<rparr>,
      error = None, http_status = 200\<rparr>"

text \<open>
  Bookkeeping for a series of pushes, numbered from 0: the toast and the removal
  timer that push number \<open>fst e\<close> creates, whether that toast is still due to be on
  display at time \<open>T\<close>, and the state in which exactly those toasts and timers are
  left.
\<close>

definition toastOf :: "nat \<times> nat \<times> string \<times> toast_kind \<Rightarrow> toast" where
  "toastOf e =
     \<lparr>toast_id = fst (snd e) * 1000 + fst e mod 1000,
      toast_message = fst (snd (snd e)),
      toast_type = snd (snd (snd e))\<rparr>"

definition timerOf :: "nat \<times> nat \<times> string \<times> toast_kind \<Rightarrow> nat \<times> nat" where
  "timerOf e = (fst (snd e) + 4000, toast_id (toastOf e))"

definition liveAt :: "nat \<Rightarrow> nat \<times> nat \<times> string \<times> toast_kind \<Rightarrow> bool" where
  "liveAt T e = (T < fst (snd e) + 4000)"

definition toastInv :: "(nat \<times> string \<times> toast_kind) list \<Rightarrow> nat \<Rightarrow> toast_state \<Rightarrow> bool" where
  "toastInv ps T s =
     (toasts s = map toastOf (filter (liveAt T) (enumerate 0 ps))
      \<and> removalTimers s = map timerOf (filter (liveAt T) (enumerate 0 ps))
      \<and> toastCounterRef s = length ps)"

section \<open>Properties of the poll loop\<close>

lemma pollLoop_skip:
  assumes "\<forall>j. a \<le> j \<and> j < a + n \<longrightarrow> pollAttempt (env j) = Continue"
    and "a + n \<le> maxAttempts"
  shows "pollLoop k env w a tr =
         pollLoop k env w (a + n) (tr @ concat (replicate n (pollEffects k w @ [Sleep 5000])))"
  using assms
proof (induction n arbitrary: a tr)
  case 0
  then show ?case by simp
next
  case (Suc n)
  have c: "pollAttempt (env a) = Continue" using Suc.prems(1) by simp
  have lt: "a < maxAttempts" using Suc.prems(2) by simp
  have step: "pollLoop k env w a tr = pollLoop k env w (a + 1) (tr @ pollEffects k w @ [Sleep 5000])"
    by (subst pollLoop.simps) (simp add: c lt)
  have ih: "pollLoop k env w (a + 1) (tr @ pollEffects k w @ [Sleep 5000]) =
            pollLoop k env w ((a + 1) + n)
              ((tr @ pollEffects k w @ [Sleep 5000]) @ concat (replicate n (pollEffects k w @ [Sleep 5000])))"
    by (rule Suc.IH) (use Suc.prems in auto)
  show ?case using step ih by simp
qed

lemma pollAttempt_status:
  assumes "data r = Some d" "\<not> truthy (error r)"
  shows "pollAttempt r =
     (case wsr_status d of
        COMPLETED \<Rightarrow> Return (wsr_result d)
      | FAILED \<Rightarrow> Throw (str_or (wsr_error d) ''Workflow failed'')
      | CANCELED \<Rightarrow> Throw (str_or (wsr_error d) ''Workflow canceled'')
      | TERMINATED \<Rightarrow> Throw (str_or (wsr_error d) ''Workflow terminated'')
      | RUNNING \<Rightarrow> Continue
      | TIMED_OUT \<Rightarrow> Continue
      | NOT_FOUND \<Rightarrow> Continue)"
  using assms
  by (cases "wsr_status d")
     (simp_all add: pollAttempt_def status_name_def toLowerCase_def toLowerChar_def)

lemma hasStatus_RUNNING_Continue: "hasStatus r RUNNING \<Longrightarrow> pollAttempt r = Continue"
  by (auto simp: hasStatus_def pollAttempt_status split: option.splits)

lemma pollLoop_prefix:
  assumes "\<forall>j<n. pollAttempt (env j) = Continue" "n \<le> maxAttempts"
  shows "pollWorkflowStatus k env w =
         pollLoop k env w n (concat (replicate n (pollEffects k w @ [Sleep 5000])))"
  using pollLoop_skip [of 0 n env k w "[]"] assms by (simp add: pollWorkflowStatus_def)

lemma concat_replicate_snoc: "concat (replicate (Suc n) x) = concat (replicate n x) @ x"
  by (induction n) simp_all

lemma filter_isPoll_iterations:
  "length (filter isPoll (concat (replicate n (pollEffects k w @ [Sleep 5000])))) = n"
  by (induction n) (simp_all add: pollEffects_def isPoll_def request_def)

lemma timeout_message_distinct:
  "''Workflow timed out'' \<noteq> ''Workflow '' @ toLowerCase (status_name st)"
  by (cases st) (simp_all add: status_name_def toLowerCase_def toLowerChar_def)

text \<open>
  Claim C3. When every status response is a plain \<open>RUNNING\<close>, the loop issues exactly
  120 status requests, pauses 5000 ms after each of them, and then throws
  \<open>Workflow timed out\<close>. That message is none of the generic messages of a reported
  failure (\<open>Workflow failed\<close>, \<open>Workflow canceled\<close>, \<open>Workflow terminated\<close>) and
  not the message of a failed poll.
\<close>

theorem poll_timeout_after_120_polls:
  assumes "\<forall>n<maxAttempts. hasStatus (env n) RUNNING"
  shows "pollWorkflowStatus k env w =
           (Inl ''Workflow timed out'', concat (replicate 120 (pollEffects k w @ [Sleep 5000])))
       \<and> length (filter isPoll (snd (pollWorkflowStatus k env w))) = 120
       \<and> (\<forall>st. ''Workflow timed out'' \<noteq> ''Workflow '' @ toLowerCase (status_name st))
       \<and> ''Workflow timed out'' \<noteq> ''Failed to get workflow status''"
proof -
  have "\<forall>j<maxAttempts. pollAttempt (env j) = Continue"
    using assms hasStatus_RUNNING_Continue by blast
  then have "pollWorkflowStatus k env w =
      pollLoop k env w maxAttempts (concat (replicate maxAttempts (pollEffects k w @ [Sleep 5000])))"
    by (rule pollLoop_prefix) simp
  then have r: "pollWorkflowStatus k env w =
      (Inl ''Workflow timed out'', concat (replicate 120 (pollEffects k w @ [Sleep 5000])))"
    by (subst (asm) pollLoop.simps) (simp add: maxAttempts_def)
  show ?thesis
    using r filter_isPoll_iterations [of 120 k w] timeout_message_distinct by simp
qed

theorem poll_timeout_after_120_polls_witness:
  "hasStatus (okStatus RUNNING None None) RUNNING
   \<and> fst (pollWorkflowStatus ''key'' (\<lambda>n. okStatus RUNNING None None) ''wf-1'') = Inl ''Workflow timed out''
   \<and> length (filter isPoll (snd (pollWorkflowStatus ''key'' (\<lambda>n. okStatus RUNNING None None) ''wf-1''))) = 120"
proof -
  have h: "\<forall>n<maxAttempts. hasStatus ((\<lambda>n. okStatus RUNNING None None) n) RUNNING"
    by (simp add: hasStatus_def okStatus_def truthy_def)
  note t = poll_timeout_after_120_polls [OF h, of "''key''" "''wf-1''"]
  have c1: "fst (pollWorkflowStatus ''key'' (\<lambda>n. okStatus RUNNING None None) ''wf-1'') = Inl ''Workflow timed out''"
    using conjunct1 [OF t] by simp
  have c2: "length (filter isPoll (snd (pollWorkflowStatus ''key'' (\<lambda>n. okStatus RUNNING None None) ''wf-1''))) = 120"
    using conjunct1 [OF conjunct2 [OF t]] .
  have c0: "hasStatus (okStatus RUNNING None None) RUNNING"
    by (simp add: hasStatus_def okStatus_def truthy_def)
  show ?thesis using c0 c1 c2 by simp
qed

text \<open>
  Claim C5. Let the first \<open>n\<close> polls fall through and let poll \<open>n\<close> (within the
  budget) carry a status payload. \<open>COMPLETED\<close> makes the loop return the attached
  result. \<open>FAILED\<close>, \<open>CANCELED\<close> and \<open>TERMINATED\<close> make it throw: the message is the
  error string of the payload when there is a non-empty one, and otherwise
  \<open>Workflow\<close> followed by the lower-case status name. Every other status (\<open>RUNNING\<close>,
  \<open>TIMED_OUT\<close>, \<open>NOT_FOUND\<close>) makes it pause and go on with the next attempt.
\<close>

theorem poll_status_classification:
  assumes "\<forall>j<n. pollAttempt (env j) = Continue" and "n < maxAttempts"
    and "data (env n) = Some d" and "\<not> truthy (error (env n))"
  shows "pollAttempt (env n) =
           (case wsr_status d of
              COMPLETED \<Rightarrow> Return (wsr_result d)
            | FAILED \<Rightarrow>
                (case wsr_error d of
                   None \<Rightarrow> Throw ''Workflow failed''
                 | Some e \<Rightarrow> if e = [] then Throw ''Workflow failed'' else Throw e)
            | CANCELED \<Rightarrow>
                (case wsr_error d of
                   None \<Rightarrow> Throw ''Workflow canceled''
                 | Some e \<Rightarrow> if e = [] then Throw ''Workflow canceled'' else Throw e)
            | TERMINATED \<Rightarrow>
                (case wsr_error d of
                   None \<Rightarrow> Throw ''Workflow terminated''
                 | Some e \<Rightarrow> if e = [] then Throw ''Workflow terminated'' else Throw e)
            | RUNNING \<Rightarrow> Continue
            | TIMED_OUT \<Rightarrow> Continue
            | NOT_FOUND \<Rightarrow> Continue)
       \<and> pollWorkflowStatus k env w =
           (case pollAttempt (env n) of
              Return res \<Rightarrow>
                (Inr res, concat (replicate n (pollEffects k w @ [Sleep 5000])) @ pollEffects k w)
            | Throw msg \<Rightarrow>
                (Inl msg, concat (replicate n (pollEffects k w @ [Sleep 5000])) @ pollEffects k w)
            | Continue \<Rightarrow>
                pollLoop k env w (n + 1)
                  (concat (replicate (n + 1) (pollEffects k w @ [Sleep 5000]))))"
proof -
  have a: "pollWorkflowStatus k env w =
      pollLoop k env w n (concat (replicate n (pollEffects k w @ [Sleep 5000])))"
    using assms(1,2) by (intro pollLoop_prefix) simp_all
  have b: "pollLoop k env w n (concat (replicate n (pollEffects k w @ [Sleep 5000]))) =
      (case pollAttempt (env n) of
              Return res \<Rightarrow>
                (Inr res, concat (replicate n (pollEffects k w @ [Sleep 5000])) @ pollEffects k w)
            | Throw msg \<Rightarrow>
                (Inl msg, concat (replicate n (pollEffects k w @ [Sleep 5000])) @ pollEffects k w)
            | Continue \<Rightarrow>
                pollLoop k env w (n + 1)
                  (concat (replicate (n + 1) (pollEffects k w @ [Sleep 5000]))))"
    by (subst pollLoop.simps)
       (simp add: assms(2) concat_replicate_snoc del: replicate_Suc concat.simps split: poll_step.splits)
  have c: "pollAttempt (env n) =
           (case wsr_status d of
              COMPLETED \<Rightarrow> Return (wsr_result d)
            | FAILED \<Rightarrow>
                (case wsr_error d of
                   None \<Rightarrow> Throw ''Workflow failed''
                 | Some e \<Rightarrow> if e = [] then Throw ''Workflow failed'' else Throw e)
            | CANCELED \<Rightarrow>
                (case wsr_error d of
                   None \<Rightarrow> Throw ''Workflow canceled''
                 | Some e \<Rightarrow> if e = [] then Throw ''Workflow canceled'' else Throw e)
            | TERMINATED \<Rightarrow>
                (case wsr_error d of
                   None \<Rightarrow> Throw ''Workflow terminated''
                 | Some e \<Rightarrow> if e = [] then Throw ''Workflow terminated'' else Throw e)
            | RUNNING \<Rightarrow> Continue
            | TIMED_OUT \<Rightarrow> Continue
            | NOT_FOUND \<Rightarrow> Continue)"
    unfolding pollAttempt_status [OF assms(3,4)]
    by (simp add: str_or_def split: wf_status.splits option.splits)
  show ?thesis using a b c by simp
qed

theorem poll_status_classification_witness:
  "pollAttempt (okStatus NOT_FOUND None None) = Continue
   \<and> 2 < maxAttempts
   \<and> pollWorkflowStatus ''key''
        (\<lambda>j. if j < 2 then okStatus NOT_FOUND None None else okStatus FAILED None (Some ''Scraper crashed''))
        ''wf-1''
       = (Inl ''Scraper crashed'',
          concat (replicate 2 (pollEffects ''key'' ''wf-1'' @ [Sleep 5000])) @ pollEffects ''key'' ''wf-1'')
   \<and> pollWorkflowStatus ''key''
        (\<lambda>j. if j < 2 then okStatus NOT_FOUND None None else okStatus CANCELED None None) ''wf-1''
       = (Inl ''Workflow canceled'',
          concat (replicate 2 (pollEffects ''key'' ''wf-1'' @ [Sleep 5000])) @ pollEffects ''key'' ''wf-1'')
   \<and> pollWorkflowStatus ''key''
        (\<lambda>j. if j < 2 then okStatus NOT_FOUND None None else okStatus TERMINATED None (Some []))
        ''wf-1''
       = (Inl ''Workflow terminated'',
          concat (replicate 2 (pollEffects ''key'' ''wf-1'' @ [Sleep 5000])) @ pollEffects ''key'' ''wf-1'')"
proof -
  have nf: "pollAttempt (okStatus NOT_FOUND None None) = Continue"
    by (simp add: pollAttempt_def okStatus_def truthy_def)
  have h2: "2 < maxAttempts" by (simp add: maxAttempts_def)
  have r: "pollWorkflowStatus ''key''
             (\<lambda>j. if j < 2 then okStatus NOT_FOUND None None else okStatus st None err) ''wf-1''
           = (case pollAttempt (okStatus st None err) of
                Return res \<Rightarrow>
                  (Inr res, concat (replicate 2 (pollEffects ''key'' ''wf-1'' @ [Sleep 5000]))
                            @ pollEffects ''key'' ''wf-1'')
              | Throw msg \<Rightarrow>
                  (Inl msg, concat (replicate 2 (pollEffects ''key'' ''wf-1'' @ [Sleep 5000]))
                            @ pollEffects ''key'' ''wf-1'')
              | Continue \<Rightarrow>
                  pollLoop ''key''
                    (\<lambda>j. if j < 2 then okStatus NOT_FOUND None None else okStatus st None err) ''wf-1''
                    (2 + 1)
                    (concat (replicate (2 + 1) (pollEffects ''key'' ''wf-1'' @ [Sleep 5000]))))
         \<and> pollAttempt (okStatus st None err) =
             (case st of
                COMPLETED \<Rightarrow> Return None
              | FAILED \<Rightarrow>
                  (case err of
                     None \<Rightarrow> Throw ''Workflow failed''
                   | Some e \<Rightarrow> if e = [] then Throw ''Workflow failed'' else Throw e)
              | CANCELED \<Rightarrow>
                  (case err of
                     None \<Rightarrow> Throw ''Workflow canceled''
                   | Some e \<Rightarrow> if e = [] then Throw ''Workflow canceled'' else Throw e)
              | TERMINATED \<Rightarrow>
                  (case err of
                     None \<Rightarrow> Throw ''Workflow terminated''
                   | Some e \<Rightarrow> if e = [] then Throw ''Workflow terminated'' else Throw e)
              | RUNNING \<Rightarrow> Continue
              | TIMED_OUT \<Rightarrow> Continue
              | NOT_FOUND \<Rightarrow> Continue)" for st err
  proof -
    let ?env = "\<lambda>j::nat. if j < 2 then okStatus NOT_FOUND None None else okStatus st None err"
    have h1: "\<forall>j<2. pollAttempt (?env j) = Continue" using nf by simp
    have h3: "data (?env 2) =
        Some \<lparr>wsr_workflow_id = ''wf-1'', wsr_status = st, wsr_result = None, wsr_error = err\<rparr>"
      by (simp add: okStatus_def)
    have h4: "\<not> truthy (error (?env 2))" by (simp add: okStatus_def truthy_def)
    show ?thesis
      using poll_status_classification [OF h1 h2 h3 h4, of "''key''" "''wf-1''"]
      by (cases st) simp_all
  qed
  have c1: "pollWorkflowStatus ''key''
        (\<lambda>j. if j < 2 then okStatus NOT_FOUND None None else okStatus FAILED None (Some ''Scraper crashed''))
        ''wf-1''
       = (Inl ''Scraper crashed'',
          concat (replicate 2 (pollEffects ''key'' ''wf-1'' @ [Sleep 5000])) @ pollEffects ''key'' ''wf-1'')"
    using r [of FAILED "Some ''Scraper crashed''"] by simp
  have c2: "pollWorkflowStatus ''key''
        (\<lambda>j. if j < 2 then okStatus NOT_FOUND None None else okStatus CANCELED None None) ''wf-1''
       = (Inl ''Workflow canceled'',
          concat (replicate 2 (pollEffects ''key'' ''wf-1'' @ [Sleep 5000])) @ pollEffects ''key'' ''wf-1'')"
    using r [of CANCELED None] by simp
  have c3: "pollWorkflowStatus ''key''
        (\<lambda>j. if j < 2 then okStatus NOT_FOUND None None else okStatus TERMINATED None (Some []))
        ''wf-1''
       = (Inl ''Workflow terminated'',
          concat (replicate 2 (pollEffects ''key'' ''wf-1'' @ [Sleep 5000])) @ pollEffects ''key'' ''wf-1'')"
    using r [of TERMINATED "Some []"] by simp
  show ?thesis using nf h2 c1 c2 c3 by simp
qed

section \<open>Properties of \<open>runScrape\<close>\<close>

text \<open>
  Claim C1, as the code has it. When the workflow completes with a result payload whose
  \<open>processed_count\<close> and \<open>failed_count\<close> are both positive, \<open>runScrape\<close> sets the
  scrape status to \<open>success\<close>, stores the result, shows the summary
  \<open>Done: n processed, k skipped, f failed\<close> as a toast of kind \<open>error\<close>, and then calls
  the completion callback.
\<close>

theorem partial_failure_is_error_toast:
  assumes "apiKey \<noteq> []" and "trim (scrapeUrl s) \<noteq> []" and "data startResp = Some d"
    and "pollWorkflowStatus apiKey env (workflow_id d) = (Inr (Some res), tr)"
    and "processed_count res > 0" and "failed_count res > 0"
  shows "trace (runScrape apiKey startResp env s) =
           trace s
           @ [Request (request apiKey (scrapeOrders (scrapeUrl s))),
              Awaited (scrapeOrders (scrapeUrl s)),
              ShowToast ''Workflow started - please wait...'' ToastSuccess]
           @ tr
           @ [ShowToast (''Done: '' @ show_int (processed_count res) @ '' processed, ''
                          @ show_int (num_or (skipped_orders res) 0) @ '' skipped, ''
                          @ show_int (failed_count res) @ '' failed'') ToastError,
              OnScrapeComplete]
       \<and> scrapeStatus (runScrape apiKey startResp env s) = Success
       \<and> scrapeResult (runScrape apiKey startResp env s) = Some res
       \<and> currentWorkflowId (runScrape apiKey startResp env s) = None"
  using assms
  by (simp add: runScrape_def Let_def emit_def emits_def doneToast_def num_or_def)

text \<open>
  Claim C10. When poll \<open>n\<close> (within the budget, all earlier polls having fallen through)
  comes back with an error or without a body, \<open>pollWorkflowStatus\<close> throws at once:
  \<open>n + 1\<close> status requests have been issued and no further one follows. \<open>runScrape\<close>
  then sets the status to \<open>error\<close>, shows that error (or \<open>Failed to get workflow status\<close>
  when there is none) as an error toast, does not call the completion callback, and
  clears the workflow id.
\<close>

theorem poll_failure_settles_scrape:
  assumes "apiKey \<noteq> []" and "trim (scrapeUrl s) \<noteq> []" and "data startResp = Some d"
    and "\<forall>j<n. pollAttempt (env j) = Continue" and "n < maxAttempts"
    and "truthy (error (env n)) \<or> data (env n) = None"
  shows "pollWorkflowStatus apiKey env (workflow_id d) =
           (Inl (str_or (error (env n)) ''Failed to get workflow status''),
            concat (replicate n (pollEffects apiKey (workflow_id d) @ [Sleep 5000]))
            @ pollEffects apiKey (workflow_id d))
       \<and> trace (runScrape apiKey startResp env s) =
           trace s
           @ [Request (request apiKey (scrapeOrders (scrapeUrl s))),
              Awaited (scrapeOrders (scrapeUrl s)),
              ShowToast ''Workflow started - please wait...'' ToastSuccess]
           @ concat (replicate n (pollEffects apiKey (workflow_id d) @ [Sleep 5000]))
           @ pollEffects apiKey (workflow_id d)
           @ [ShowToast (str_or (error (env n)) ''Failed to get workflow status'') ToastError]
       \<and> length (filter isPoll (snd (pollWorkflowStatus apiKey env (workflow_id d)))) = n + 1
       \<and> OnScrapeComplete \<notin> set (drop (length (trace s)) (trace (runScrape apiKey startResp env s)))
       \<and> scrapeStatus (runScrape apiKey startResp env s) = Error
       \<and> currentWorkflowId (runScrape apiKey startResp env s) = None"
proof -
  let ?w = "workflow_id d"
  let ?pre = "concat (replicate n (pollEffects apiKey ?w @ [Sleep 5000]))"
  let ?msg = "str_or (error (env n)) ''Failed to get workflow status''"
  have a: "pollWorkflowStatus apiKey env ?w = pollLoop apiKey env ?w n ?pre"
    using assms(4,5) by (intro pollLoop_prefix) simp_all
  have t: "pollAttempt (env n) = Throw ?msg"
    using assms(6) by (simp add: pollAttempt_def)
  have p: "pollWorkflowStatus apiKey env ?w = (Inl ?msg, ?pre @ pollEffects apiKey ?w)"
    unfolding a by (subst pollLoop.simps) (simp add: assms(5) t)
  have tr: "trace (runScrape apiKey startResp env s) =
           trace s
           @ [Request (request apiKey (scrapeOrders (scrapeUrl s))),
              Awaited (scrapeOrders (scrapeUrl s)),
              ShowToast ''Workflow started - please wait...'' ToastSuccess]
           @ ?pre @ pollEffects apiKey ?w @ [ShowToast ?msg ToastError]"
    using assms(1,2,3) p by (simp add: runScrape_def Let_def emit_def emits_def)
  have st: "scrapeStatus (runScrape apiKey startResp env s) = Error
       \<and> currentWorkflowId (runScrape apiKey startResp env s) = None"
    using assms(1,2,3) p by (simp add: runScrape_def Let_def emit_def emits_def)
  have cnt: "length (filter isPoll (snd (pollWorkflowStatus apiKey env ?w))) = n + 1"
    using filter_isPoll_iterations [of n apiKey ?w]
    by (simp add: p pollEffects_def isPoll_def request_def)
  have nopre: "OnScrapeComplete \<notin> set ?pre"
    by (induction n) (simp_all add: pollEffects_def)
  have nocb: "OnScrapeComplete \<notin> set (drop (length (trace s)) (trace (runScrape apiKey startResp env s)))"
    using nopre by (simp add: tr pollEffects_def)
  show ?thesis using p tr st cnt nocb by simp
qed

lemma trim_DEFAULT_SCRAPE_URL: "trim DEFAULT_SCRAPE_URL = DEFAULT_SCRAPE_URL"
  by (simp add: trim_def DEFAULT_SCRAPE_URL_def js_def isSpace_def)

lemma DEFAULT_SCRAPE_URL_nonempty: "DEFAULT_SCRAPE_URL \<noteq> []"
  by (simp add: DEFAULT_SCRAPE_URL_def js_def)

lemma poll_completed_at_once:
  "pollWorkflowStatus k (\<lambda>n. okStatus COMPLETED (Some res) None) w = (Inr (Some res), pollEffects k w)"
  unfolding pollWorkflowStatus_def
  by (subst pollLoop.simps) (simp add: pollAttempt_def okStatus_def truthy_def maxAttempts_def)

text \<open>
  The run of the specification's example, \<open>processed_count = 3\<close> and
  \<open>failed_count = 2\<close>: the summary toast is of kind \<open>error\<close>.
\<close>

theorem partial_failure_counterexample:
  "trace (runScrape ''key'' (okStart ''wf-1'') (\<lambda>n. okStatus COMPLETED (Some partialResult) None)
            initialScraping) =
     [Request \<lparr>call = ScrapeOrders DEFAULT_SCRAPE_URL, x_api_key = Some ''key''\<rparr>,
      Awaited (ScrapeOrders DEFAULT_SCRAPE_URL),
      ShowToast ''Workflow started - please wait...'' ToastSuccess,
      Request \<lparr>call = GetWorkflowStatus ''wf-1'', x_api_key = Some ''key''\<rparr>,
      Awaited (GetWorkflowStatus ''wf-1''),
      ShowToast ''Done: 3 processed, 0 skipped, 2 failed'' ToastError,
      OnScrapeComplete]"
proof -
  have u: "scrapeUrl initialScraping = DEFAULT_SCRAPE_URL" "trace initialScraping = []"
    by (simp_all add: initialScraping_def)
  have d: "doneToast partialResult = ShowToast ''Done: 3 processed, 0 skipped, 2 failed'' ToastError"
    by (simp add: doneToast_def partialResult_def num_or_def show_int_def show_nat.simps)
  show ?thesis
    using DEFAULT_SCRAPE_URL_nonempty
    by (simp add: runScrape_def Let_def u trim_DEFAULT_SCRAPE_URL okStart_def poll_completed_at_once
          emit_def emits_def d pollEffects_def request_def scrapeOrders_def str_or_def)
qed

theorem partial_failure_is_error_toast_witness:
  "''key'' \<noteq> [] \<and> trim (scrapeUrl initialScraping) \<noteq> []
   \<and> data (okStart ''wf-1'') = Some \<lparr>str_status = ''triggered'', workflow_id = ''wf-1'', str_message = ''started''\<rparr>
   \<and> pollWorkflowStatus ''key'' (\<lambda>n. okStatus COMPLETED (Some partialResult) None) ''wf-1''
        = (Inr (Some partialResult), pollEffects ''key'' ''wf-1'')
   \<and> processed_count partialResult > 0 \<and> failed_count partialResult > 0
   \<and> last (butlast (trace (runScrape ''key'' (okStart ''wf-1'')
                              (\<lambda>n. okStatus COMPLETED (Some partialResult) None) initialScraping)))
        = ShowToast ''Done: 3 processed, 0 skipped, 2 failed'' ToastError
   \<and> last (trace (runScrape ''key'' (okStart ''wf-1'')
                     (\<lambda>n. okStatus COMPLETED (Some partialResult) None) initialScraping))
        = OnScrapeComplete
   \<and> scrapeStatus (runScrape ''key'' (okStart ''wf-1'')
                     (\<lambda>n. okStatus COMPLETED (Some partialResult) None) initialScraping) = Success"
proof -
  let ?d = "\<lparr>str_status = ''triggered'', workflow_id = ''wf-1'', str_message = ''started''\<rparr>"
  let ?env = "\<lambda>n::nat. okStatus COMPLETED (Some partialResult) None"
  have h1: "''key'' \<noteq> []" by simp
  have h2: "trim (scrapeUrl initialScraping) \<noteq> []"
    using DEFAULT_SCRAPE_URL_nonempty by (simp add: initialScraping_def trim_DEFAULT_SCRAPE_URL)
  have h3: "data (okStart ''wf-1'') = Some ?d" by (simp add: okStart_def)
  have h4: "pollWorkflowStatus ''key'' ?env (workflow_id ?d) = (Inr (Some partialResult), pollEffects ''key'' ''wf-1'')"
    by (simp add: poll_completed_at_once)
  have h5: "processed_count partialResult > 0" by (simp add: partialResult_def)
  have h6: "failed_count partialResult > 0" by (simp add: partialResult_def)
  note t = partial_failure_is_error_toast [OF h1 h2 h3 h4 h5 h6]
  have n: "show_int (processed_count partialResult) = ''3''"
     "show_int (num_or (skipped_orders partialResult) 0) = ''0''"
     "show_int (failed_count partialResult) = ''2''"
    by (simp_all add: partialResult_def num_or_def show_int_def show_nat.simps)
  show ?thesis
    using h1 h2 h3 h4 h5 h6 t by (simp add: n butlast_append)
qed

theorem poll_failure_settles_scrape_witness:
  "''key'' \<noteq> [] \<and> trim (scrapeUrl initialScraping) \<noteq> []
   \<and> pollAttempt (okStatus RUNNING None None) = Continue
   \<and> 1 < maxAttempts
   \<and> data (failedPoll ''Network error'' 0) = None
   \<and> pollWorkflowStatus ''key'' (\<lambda>j. if j < 1 then okStatus RUNNING None None else failedPoll ''Network error'' 0) ''wf-1''
        = (Inl ''Network error'',
           pollEffects ''key'' ''wf-1'' @ [Sleep 5000] @ pollEffects ''key'' ''wf-1'')
   \<and> last (trace (runScrape ''key'' (okStart ''wf-1'')
                     (\<lambda>j. if j < 1 then okStatus RUNNING None None else failedPoll ''Network error'' 0)
                     initialScraping))
        = ShowToast ''Network error'' ToastError
   \<and> scrapeStatus (runScrape ''key'' (okStart ''wf-1'')
                     (\<lambda>j. if j < 1 then okStatus RUNNING None None else failedPoll ''Network error'' 0)
                     initialScraping) = Error"
proof -
  let ?d = "\<lparr>str_status = ''triggered'', workflow_id = ''wf-1'', str_message = ''started''\<rparr>"
  let ?env = "\<lambda>j::nat. if j < 1 then okStatus RUNNING None None else failedPoll ''Network error'' 0"
  have h1: "''key'' \<noteq> []" by simp
  have h2: "trim (scrapeUrl initialScraping) \<noteq> []"
    using DEFAULT_SCRAPE_URL_nonempty by (simp add: initialScraping_def trim_DEFAULT_SCRAPE_URL)
  have h3: "data (okStart ''wf-1'') = Some ?d" by (simp add: okStart_def)
  have h4: "\<forall>j<1::nat. pollAttempt (?env j) = Continue"
    by (simp add: pollAttempt_def okStatus_def truthy_def)
  have h5: "1 < maxAttempts" by (simp add: maxAttempts_def)
  have h6: "truthy (error (?env 1)) \<or> data (?env 1) = None" by (simp add: failedPoll_def)
  note t = poll_failure_settles_scrape [OF h1 h2 h3 h4 h5 h6]
  have e: "str_or (error (?env 1)) ''Failed to get workflow status'' = ''Network error''"
    by (simp add: failedPoll_def str_or_def)
  show ?thesis
    using h1 h2 h4 h5 t by (simp add: failedPoll_def str_or_def)
qed

section \<open>Properties of saving the url\<close>

text \<open>
  Claim C7. A url that equals the default locator after trimming is saved as \<open>null\<close>: the
  one \<open>updateScrapeConfig\<close> request that \<open>saveUrlToBackend\<close> issues carries no override.
  No input at all makes \<open>urlToSave\<close> yield the default string itself.
\<close>

theorem default_url_saved_as_null:
  assumes "trim url = DEFAULT_SCRAPE_URL" and "apiKey \<noteq> []"
  shows "urlToSave url = None
       \<and> filter isPersist (trace (saveUrlToBackend apiKey server url s)) =
           filter isPersist (trace s) @ [Request \<lparr>call = UpdateScrapeConfig None, x_api_key = Some apiKey\<rparr>]
       \<and> (\<forall>u. urlToSave u \<noteq> Some DEFAULT_SCRAPE_URL)"
  using assms
  by (simp add: urlToSave_def saveUrlToBackend_def Let_def emit_def emits_def isPersist_def request_def)

text \<open>
  The default locator typed with a no-break space (U+00A0) and a space in front and a
  tab and a narrow no-break space (U+202F) behind.
\<close>

theorem default_url_saved_as_null_witness:
  "trim (160 # 32 # DEFAULT_SCRAPE_URL @ [9, 8239]) = DEFAULT_SCRAPE_URL \<and> ''key'' \<noteq> []
   \<and> urlToSave (160 # 32 # DEFAULT_SCRAPE_URL @ [9, 8239]) = None
   \<and> filter isPersist
        (trace (saveUrlToBackend ''key'' okConfig (160 # 32 # DEFAULT_SCRAPE_URL @ [9, 8239]) initialScraping))
       = [Request \<lparr>call = UpdateScrapeConfig None, x_api_key = Some ''key''\<rparr>]"
proof -
  have h1: "trim (160 # 32 # DEFAULT_SCRAPE_URL @ [9, 8239]) = DEFAULT_SCRAPE_URL"
    by (simp add: trim_def DEFAULT_SCRAPE_URL_def js_def isSpace_def)
  have h2: "''key'' \<noteq> []" by simp
  note t = default_url_saved_as_null [OF h1 h2, of okConfig initialScraping]
  have e: "trace initialScraping = []" by (simp add: initialScraping_def)
  show ?thesis using h1 t by (simp add: e)
qed

text \<open>
  Claim C8. With a key set, \<open>saveUrlToBackend\<close> first issues the persist request and
  awaits its response. Only when that response carries no error does it issue the
  schedule-sync request, after the persist response has arrived, and then shows
  \<open>URL saved\<close>. When the response carries an error it shows \<open>Failed to save URL\<close> as its
  only toast and issues no sync request. The draft url is not touched either way.
\<close>

theorem sync_only_after_successful_persist:
  assumes "apiKey \<noteq> []"
  shows "(\<not> truthy (error (server (urlToSave url))) \<longrightarrow>
            trace (saveUrlToBackend apiKey server url s) =
              trace s @ [Request (request apiKey (UpdateScrapeConfig (urlToSave url))),
                         Awaited (UpdateScrapeConfig (urlToSave url)),
                         Request (request apiKey SyncSchedules),
                         Awaited SyncSchedules,
                         ShowToast ''URL saved'' ToastSuccess])
       \<and> (truthy (error (server (urlToSave url))) \<longrightarrow>
            trace (saveUrlToBackend apiKey server url s) =
              trace s @ [Request (request apiKey (UpdateScrapeConfig (urlToSave url))),
                         Awaited (UpdateScrapeConfig (urlToSave url)),
                         ShowToast ''Failed to save URL'' ToastError]
            \<and> filter isSync (drop (length (trace s)) (trace (saveUrlToBackend apiKey server url s))) = [])
       \<and> scrapeUrl (saveUrlToBackend apiKey server url s) = scrapeUrl s"
  using assms
  by (simp add: saveUrlToBackend_def Let_def emit_def emits_def isSync_def request_def)

lemma urlToSave_plain [simp]:
  "urlToSave (js ''http://a'') = Some (js ''http://a'')"
  "urlToSave (js ''http://abc'') = Some (js ''http://abc'')"
  by (simp_all add: urlToSave_def trim_def isSpace_def DEFAULT_SCRAPE_URL_def js_def)

theorem sync_only_after_successful_persist_witness:
  "''key'' \<noteq> []
   \<and> truthy (error (failedConfig (urlToSave (js ''http://a''))))
   \<and> trace (saveUrlToBackend ''key'' failedConfig (js ''http://a'') initialScraping) =
       [Request \<lparr>call = UpdateScrapeConfig (Some (js ''http://a'')), x_api_key = Some ''key''\<rparr>,
        Awaited (UpdateScrapeConfig (Some (js ''http://a''))),
        ShowToast ''Failed to save URL'' ToastError]
   \<and> \<not> truthy (error (okConfig (urlToSave (js ''http://a''))))
   \<and> trace (saveUrlToBackend ''key'' okConfig (js ''http://a'') initialScraping) =
       [Request \<lparr>call = UpdateScrapeConfig (Some (js ''http://a'')), x_api_key = Some ''key''\<rparr>,
        Awaited (UpdateScrapeConfig (Some (js ''http://a''))),
        Request \<lparr>call = SyncSchedules, x_api_key = Some ''key''\<rparr>,
        Awaited SyncSchedules,
        ShowToast ''URL saved'' ToastSuccess]"
proof -
  have h: "''key'' \<noteq> []" by simp
  have f: "truthy (error (failedConfig (urlToSave (js ''http://a''))))"
    by (simp add: failedConfig_def truthy_def)
  have g: "\<not> truthy (error (okConfig (urlToSave (js ''http://a''))))"
    by (simp add: okConfig_def truthy_def)
  have e: "trace initialScraping = []" by (simp add: initialScraping_def)
  note t1 = sync_only_after_successful_persist [OF h, of failedConfig "js ''http://a''" initialScraping]
  note t2 = sync_only_after_successful_persist [OF h, of okConfig "js ''http://a''" initialScraping]
  have c1: "trace (saveUrlToBackend ''key'' failedConfig (js ''http://a'') initialScraping) =
       [Request \<lparr>call = UpdateScrapeConfig (Some (js ''http://a'')), x_api_key = Some ''key''\<rparr>,
        Awaited (UpdateScrapeConfig (Some (js ''http://a''))),
        ShowToast ''Failed to save URL'' ToastError]"
    using t1 f by (simp add: e request_def)
  have c2: "trace (saveUrlToBackend ''key'' okConfig (js ''http://a'') initialScraping) =
       [Request \<lparr>call = UpdateScrapeConfig (Some (js ''http://a'')), x_api_key = Some ''key''\<rparr>,
        Awaited (UpdateScrapeConfig (Some (js ''http://a''))),
        Request \<lparr>call = SyncSchedules, x_api_key = Some ''key''\<rparr>,
        Awaited SyncSchedules,
        ShowToast ''URL saved'' ToastSuccess]"
    using t2 g by (simp add: e request_def)
  show ?thesis using h f g c1 c2 by simp
qed

subsection \<open>Debounced edits\<close>

lemma advanceTo_not_due:
  assumes "\<forall>tm \<in> set (timers s). t < tm_due tm"
  shows "advanceTo srv t s = s\<lparr>now := max (now s) t\<rparr>"
proof -
  have a: "filter (\<lambda>tm. tm_due tm \<le> t) (timers s) = []"
    using assms by (auto simp: filter_empty_conv)
  have b: "filter (\<lambda>tm. \<not> tm_due tm \<le> t) (timers s) = timers s"
    using assms by (auto simp: filter_id_conv)
  show ?thesis by (simp add: advanceTo_def a b)
qed

lemma pendingSave_timers:
  assumes "pendingSave s t k u"
  obtains h where "timers s = [\<lparr>tm_handle = h, tm_due = t + 1000, tm_apiKey = k, tm_url = u\<rparr>]"
    and "saveTimeoutRef s = Some h" and "now s = t" and "scrapeUrl s = u"
proof -
  obtain tm where tm: "timers s = [tm]"
    using assms by (auto simp: pendingSave_def split: list.splits)
  have f: "saveTimeoutRef s = Some (tm_handle tm)" "tm_due tm = t + 1000" "tm_apiKey tm = k"
    "tm_url tm = u" "now s = t" "scrapeUrl s = u"
    using assms by (simp_all add: pendingSave_def tm)
  have "tm = \<lparr>tm_handle = tm_handle tm, tm_due = t + 1000, tm_apiKey = k, tm_url = u\<rparr>"
    using f by simp
  then show ?thesis using that tm f by metis
qed

lemma first_edit:
  assumes "timers s = []" and "now s \<le> t"
  shows "pendingSave (handleScrapeUrlChange k u (advanceTo srv t s)) t k u
       \<and> trace (handleScrapeUrlChange k u (advanceTo srv t s)) = trace s"
proof -
  have a: "advanceTo srv t s = s\<lparr>now := max (now s) t\<rparr>"
    using assms(1) by (intro advanceTo_not_due) simp
  show ?thesis
    using assms
    by (simp add: a handleScrapeUrlChange_def Let_def clearTimeout_def pendingSave_def max_def
             split: option.splits)
qed

lemma next_edit:
  assumes "pendingSave s t0 k0 u0" and "t0 \<le> t" and "t < t0 + 1000"
  shows "pendingSave (handleScrapeUrlChange k u (advanceTo srv t s)) t k u
       \<and> trace (handleScrapeUrlChange k u (advanceTo srv t s)) = trace s"
proof -
  obtain h where tm: "timers s = [\<lparr>tm_handle = h, tm_due = t0 + 1000, tm_apiKey = k0, tm_url = u0\<rparr>]"
    and r: "saveTimeoutRef s = Some h" and n: "now s = t0"
    using assms(1) by (rule pendingSave_timers)
  have a: "advanceTo srv t s = s\<lparr>now := max (now s) t\<rparr>"
    using assms(3) tm by (intro advanceTo_not_due) simp
  show ?thesis
    using assms(2)
    by (simp add: a handleScrapeUrlChange_def Let_def clearTimeout_def pendingSave_def tm r n max_def)
qed

lemma edits_burst:
  assumes "pendingSave s t0 k u0" and "burst t0 es"
  shows "pendingSave (edits k srv es s) (fst (last ((t0, u0) # es))) k (snd (last ((t0, u0) # es)))
       \<and> trace (edits k srv es s) = trace s"
  using assms
proof (induction es arbitrary: s t0 u0)
  case Nil
  then show ?case by simp
next
  case (Cons e es)
  obtain t u where e: "e = (t, u)" by (cases e)
  have b: "t0 \<le> t" "t < t0 + 1000" "burst t es" using Cons.prems(2) by (simp_all add: e)
  let ?s = "handleScrapeUrlChange k u (advanceTo srv t s)"
  have p: "pendingSave ?s t k u" and tr: "trace ?s = trace s"
    using next_edit [OF Cons.prems(1) b(1) b(2)] by simp_all
  have ih: "pendingSave (edits k srv es ?s) (fst (last ((t, u) # es))) k (snd (last ((t, u) # es)))
       \<and> trace (edits k srv es ?s) = trace ?s"
    by (rule Cons.IH [OF p b(3)])
  show ?case using ih tr by (simp add: e)
qed

lemma fire_pending:
  assumes "pendingSave s t k u" and "t + 1000 \<le> T"
  shows "trace (advanceTo srv T s) = trace (saveUrlToBackend k srv u s)
       \<and> scrapeUrl (advanceTo srv T s) = u \<and> timers (advanceTo srv T s) = []
       \<and> apiKeyProp (advanceTo srv T s) = apiKeyProp s"
proof -
  obtain h where tm: "timers s = [\<lparr>tm_handle = h, tm_due = t + 1000, tm_apiKey = k, tm_url = u\<rparr>]"
    and u: "scrapeUrl s = u"
    using assms(1) by (rule pendingSave_timers)
  show ?thesis
    using assms(2)
    by (simp add: advanceTo_def tm u saveUrlToBackend_def Let_def emit_def emits_def)
qed

lemma saveUrlToBackend_persists:
  "filter isPersist (trace (saveUrlToBackend k srv u s)) =
     filter isPersist (trace s)
     @ (if k = [] then [] else [Request (request k (UpdateScrapeConfig (urlToSave u)))])"
  by (simp add: saveUrlToBackend_def Let_def emit_def emits_def isPersist_def request_def)

text \<open>
  The burst of the specification (edits at 0, 200 and 400 ms) on the page as it
  starts, with the empty key: the save of the last edit fires at 1400 ms and returns
  without a persist request.
\<close>

theorem debounce_empty_key_counterexample:
  "apiKeyProp initialScraping = []
   \<and> filter isPersist
        (trace (scrapingRun okConfig
                  [ClockAt 0, UrlEdited (js ''http://a''), ClockAt 200, UrlEdited (js ''http://ab''),
                   ClockAt 400, UrlEdited (js ''http://abc''), ClockAt 1400]
                  initialScraping)) = []
   \<and> scrapeUrl
        (scrapingRun okConfig
           [ClockAt 0, UrlEdited (js ''http://a''), ClockAt 200, UrlEdited (js ''http://ab''),
            ClockAt 400, UrlEdited (js ''http://abc''), ClockAt 1400]
           initialScraping) = js ''http://abc''"
  by (simp add: scrapingRun_def advanceTo_def handleScrapeUrlChange_def clearTimeout_def
        saveUrlToBackend_def initialScraping_def Let_def)

text \<open>
  Claim C6, as the code has it. Let no save be pending. After a burst of edits (each
  less than 1000 ms after the one before) made while the page's key is \<open>apiKey\<close>,
  exactly one save is pending, the one of the last edit, and no persist request has
  been issued. Once 1000 ms have passed since the last edit that save has run: with a
  non-empty key it has issued exactly one persist request, which carries the value
  of the last edit (trimmed, and \<open>null\<close> for the default or an empty value); with the
  empty key it has issued none. Every edit sets the draft at once.
\<close>

theorem debounce_single_persist:
  assumes "timers s = []" and "now s \<le> t" and "burst t es"
    and "fst (last ((t, u) # es)) + 1000 \<le> T"
  shows "map tm_url (timers (edits apiKey server ((t, u) # es) s)) = [snd (last ((t, u) # es))]
       \<and> filter isPersist (trace (edits apiKey server ((t, u) # es) s)) = filter isPersist (trace s)
       \<and> filter isPersist (trace (advanceTo server T (edits apiKey server ((t, u) # es) s))) =
           filter isPersist (trace s)
           @ (if apiKey = [] then []
              else [Request (request apiKey (UpdateScrapeConfig (urlToSave (snd (last ((t, u) # es))))))])
       \<and> scrapeUrl (advanceTo server T (edits apiKey server ((t, u) # es) s)) = snd (last ((t, u) # es))
       \<and> timers (advanceTo server T (edits apiKey server ((t, u) # es) s)) = []
       \<and> (\<forall>k v st. scrapeUrl (handleScrapeUrlChange k v st) = v)"
proof -
  let ?s1 = "handleScrapeUrlChange apiKey u (advanceTo server t s)"
  let ?s2 = "edits apiKey server ((t, u) # es) s"
  let ?t = "fst (last ((t, u) # es))" and ?u = "snd (last ((t, u) # es))"
  have f: "pendingSave ?s1 t apiKey u" "trace ?s1 = trace s"
    using first_edit [OF assms(1,2)] by simp_all
  have b: "pendingSave ?s2 ?t apiKey ?u" "trace ?s2 = trace s"
    using edits_burst [OF f(1) assms(3)] f(2) by simp_all
  have c1: "map tm_url (timers ?s2) = [?u]"
    using b(1) by (rule pendingSave_timers) simp
  have c2: "\<forall>k v st. scrapeUrl (handleScrapeUrlChange k v st) = v"
    by (simp add: handleScrapeUrlChange_def Let_def clearTimeout_def split: option.splits)
  have g: "trace (advanceTo server T ?s2) = trace (saveUrlToBackend apiKey server ?u ?s2)"
    "scrapeUrl (advanceTo server T ?s2) = ?u" "timers (advanceTo server T ?s2) = []"
    using fire_pending [OF b(1) assms(4), of server] by simp_all
  have c3: "filter isPersist (trace (advanceTo server T ?s2)) =
           filter isPersist (trace s)
           @ (if apiKey = [] then [] else [Request (request apiKey (UpdateScrapeConfig (urlToSave ?u)))])"
    unfolding g(1) saveUrlToBackend_persists by (simp only: b(2))
  show ?thesis
    using b(2) c1 c2 c3 g(2,3) by simp
qed

theorem debounce_single_persist_witness:
  "timers initialScraping = [] \<and> now initialScraping \<le> 0
   \<and> burst 0 [(200, js ''http://ab''), (400, js ''http://abc'')]
   \<and> fst (last [(0, js ''http://a''), (200, js ''http://ab''), (400, js ''http://abc'')]) + 1000
       \<le> (1400::nat)
   \<and> filter isPersist (trace (advanceTo okConfig 1400
         (edits ''key'' okConfig [(0, js ''http://a''), (200, js ''http://ab''), (400, js ''http://abc'')]
            initialScraping)))
       = [Request \<lparr>call = UpdateScrapeConfig (Some (js ''http://abc'')), x_api_key = Some ''key''\<rparr>]
   \<and> scrapeUrl (advanceTo okConfig 1400
         (edits ''key'' okConfig [(0, js ''http://a''), (200, js ''http://ab''), (400, js ''http://abc'')]
            initialScraping))
       = js ''http://abc''"
proof -
  have h2: "timers initialScraping = []" by (simp add: initialScraping_def)
  have h3: "now initialScraping \<le> 0" by (simp add: initialScraping_def)
  have h4: "burst 0 [(200, js ''http://ab''), (400, js ''http://abc'')]" by simp
  have h5: "fst (last ((0, js ''http://a'') # [(200, js ''http://ab''), (400, js ''http://abc'')])) + 1000
             \<le> (1400::nat)"
    by simp
  note t = debounce_single_persist [OF h2 h3 h4 h5, of "''key''" okConfig]
  have e: "trace initialScraping = []" by (simp add: initialScraping_def)
  show ?thesis using h2 h3 t by (simp add: e request_def)
qed

section \<open>Properties of the stores\<close>

text \<open>
  The scenario of claim C2 on the orders store: page 0 is requested, then page 1, the
  answer for page 1 arrives, then the answer for page 0. The cursor is 1 and the
  items shown are those of page 0 (the order with id 1), not those of page 1 (the
  order with id 11).
\<close>

theorem stale_page_counterexample:
  "currentPage (ordersRun ''key'' pageServer [GoToPage 0, GoToPage 1, Resolve 1, Resolve 0] initialOrders) = 1
   \<and> orders (ordersRun ''key'' pageServer [GoToPage 0, GoToPage 1, Resolve 1, Resolve 0] initialOrders)
       = [\<lparr>o_id = 1, o_order_id = ''A'', o_status = ''scraped'', o_belnr = None\<rparr>]
   \<and> data (pageServer (1 * PAGE_SIZE) PAGE_SIZE)
       = Some \<lparr>ol_orders = [\<lparr>o_id = 11, o_order_id = ''A'', o_status = ''scraped'', o_belnr = None\<rparr>],
                ol_total = 20\<rparr>"
  by (simp add: ordersRun_def goToPage_def fetchOrders_def resolveOrders_def fetchOrdersResolved_def
        initialOrders_def pageServer_def emit_def PAGE_SIZE_def Let_def)

text \<open>
  Claim C2, as the code has it. Neither store keeps track of the cursor a fetch was
  issued for, and no response is dropped: the store shows the data of the fetch that
  resolved last. If \<open>goToPage p\<close> is called, then \<open>goToPage q\<close> before the first
  response arrives, and the response for \<open>p\<close> arrives (with data) after the one for
  \<open>q\<close>, then the cursor is \<open>q\<close> and the items and the total shown are those of page
  \<open>p\<close>. This holds for the orders store and for the calls store.
\<close>

theorem last_resolved_fetch_wins:
  assumes "apiKey \<noteq> []" and "inflight s = []" and "callsInflight c = []"
    and "data (server (p * PAGE_SIZE) PAGE_SIZE) = Some d"
    and "data (callServer (p * PAGE_SIZE) PAGE_SIZE) = Some cd"
  shows "currentPage (ordersRun apiKey server [GoToPage p, GoToPage q, Resolve 1, Resolve 0] s) = q
       \<and> orders (ordersRun apiKey server [GoToPage p, GoToPage q, Resolve 1, Resolve 0] s) = ol_orders d
       \<and> ordersTotal (ordersRun apiKey server [GoToPage p, GoToPage q, Resolve 1, Resolve 0] s) = ol_total d
       \<and> inflight (ordersRun apiKey server [GoToPage p, GoToPage q, Resolve 1, Resolve 0] s) = []
       \<and> callsPage (callsRun apiKey callServer [GoToPage p, GoToPage q, Resolve 1, Resolve 0] c) = q
       \<and> calls (callsRun apiKey callServer [GoToPage p, GoToPage q, Resolve 1, Resolve 0] c) = cl_calls cd
       \<and> callsTotal (callsRun apiKey callServer [GoToPage p, GoToPage q, Resolve 1, Resolve 0] c) = cl_total cd
       \<and> callsInflight (callsRun apiKey callServer [GoToPage p, GoToPage q, Resolve 1, Resolve 0] c) = []"
proof -
  have o: "currentPage (ordersRun apiKey server [GoToPage p, GoToPage q, Resolve 1, Resolve 0] s) = q
       \<and> orders (ordersRun apiKey server [GoToPage p, GoToPage q, Resolve 1, Resolve 0] s) = ol_orders d
       \<and> ordersTotal (ordersRun apiKey server [GoToPage p, GoToPage q, Resolve 1, Resolve 0] s) = ol_total d
       \<and> inflight (ordersRun apiKey server [GoToPage p, GoToPage q, Resolve 1, Resolve 0] s) = []"
    using assms(1,2,4)
    by (cases "data (server (q * PAGE_SIZE) PAGE_SIZE)")
       (simp_all add: ordersRun_def goToPage_def fetchOrders_def resolveOrders_def
          fetchOrdersResolved_def emit_def Let_def)
  have k: "callsPage (callsRun apiKey callServer [GoToPage p, GoToPage q, Resolve 1, Resolve 0] c) = q
       \<and> calls (callsRun apiKey callServer [GoToPage p, GoToPage q, Resolve 1, Resolve 0] c) = cl_calls cd
       \<and> callsTotal (callsRun apiKey callServer [GoToPage p, GoToPage q, Resolve 1, Resolve 0] c) = cl_total cd
       \<and> callsInflight (callsRun apiKey callServer [GoToPage p, GoToPage q, Resolve 1, Resolve 0] c) = []"
    using assms(1,3,5)
    by (cases "data (callServer (q * PAGE_SIZE) PAGE_SIZE)")
       (simp_all add: callsRun_def goToPageCalls_def fetchCalls_def resolveCalls_def
          fetchCallsResolved_def emit_def Let_def)
  show ?thesis using o k by simp
qed

theorem last_resolved_fetch_wins_witness:
  "''key'' \<noteq> [] \<and> inflight initialOrders = [] \<and> callsInflight initialCalls = []
   \<and> currentPage (ordersRun ''key'' pageServer [GoToPage 0, GoToPage 1, Resolve 1, Resolve 0] initialOrders) = 1
   \<and> orders (ordersRun ''key'' pageServer [GoToPage 0, GoToPage 1, Resolve 1, Resolve 0] initialOrders)
       = [\<lparr>o_id = 1, o_order_id = ''A'', o_status = ''scraped'', o_belnr = None\<rparr>]
   \<and> callsPage (callsRun ''key'' callPageServer [GoToPage 0, GoToPage 1, Resolve 1, Resolve 0] initialCalls) = 1
   \<and> calls (callsRun ''key'' callPageServer [GoToPage 0, GoToPage 1, Resolve 1, Resolve 0] initialCalls)
       = [\<lparr>c_id = 1, c_call_id = ''c'', c_status = ''received''\<rparr>]"
proof -
  have h1: "''key'' \<noteq> []" by simp
  have h2: "inflight initialOrders = []" by (simp add: initialOrders_def)
  have h3: "callsInflight initialCalls = []" by (simp add: initialCalls_def)
  have h4: "data (pageServer (0 * PAGE_SIZE) PAGE_SIZE)
      = Some \<lparr>ol_orders = [\<lparr>o_id = 1, o_order_id = ''A'', o_status = ''scraped'', o_belnr = None\<rparr>], ol_total = 20\<rparr>"
    by (simp add: pageServer_def)
  have h5: "data (callPageServer (0 * PAGE_SIZE) PAGE_SIZE)
      = Some \<lparr>cl_calls = [\<lparr>c_id = 1, c_call_id = ''c'', c_status = ''received''\<rparr>], cl_total = 20\<rparr>"
    by (simp add: callPageServer_def)
  note t = last_resolved_fetch_wins
    [of "''key''" initialOrders initialCalls pageServer 0 _ callPageServer _ 1, OF h1 h2 h3 h4 h5]
  show ?thesis using h2 h3 t by simp
qed

section \<open>Requests and the credential\<close>





section \<open>Properties of the toasts\<close>

lemma removeToast_fields:
  "toasts (removeToast i s) = filter (\<lambda>x. toast_id x \<noteq> i) (toasts s)"
  "removalTimers (removeToast i s) = removalTimers s"
  "toastCounterRef (removeToast i s) = toastCounterRef s"
  by (simp_all add: removeToast_def)

lemma fold_removeToast:
  "toasts (fold (\<lambda>tm. removeToast (snd tm)) xs s) = filter (\<lambda>x. toast_id x \<notin> snd ` set xs) (toasts s)
   \<and> removalTimers (fold (\<lambda>tm. removeToast (snd tm)) xs s) = removalTimers s
   \<and> toastCounterRef (fold (\<lambda>tm. removeToast (snd tm)) xs s) = toastCounterRef s"
proof (induction xs arbitrary: s)
  case Nil
  then show ?case by simp
next
  case (Cons x xs)
  have "filter (\<lambda>y. toast_id y \<notin> snd ` set xs) (filter (\<lambda>t. toast_id t \<noteq> snd x) (toasts s))
      = filter (\<lambda>y. toast_id y \<notin> snd ` set (x # xs)) (toasts s)"
    unfolding filter_filter by (rule filter_cong) auto
  then show ?case
    by (simp add: Cons.IH removeToast_fields)
qed

lemma toast_id_timestamp: "toast_id (toastOf e) div 1000 = fst (snd e)"
  by (simp add: toastOf_def)

lemma same_id_same_liveness:
  assumes "toast_id (toastOf e) = toast_id (toastOf e')"
  shows "liveAt T e = liveAt T e'"
  using toast_id_timestamp [of e] toast_id_timestamp [of e'] assms by (simp add: liveAt_def)

lemma expire_inv:
  assumes "toastInv ps T0 s" and "T0 \<le> T"
  shows "toastInv ps T (expire T s)"
proof -
  let ?E = "enumerate 0 ps"
  let ?due = "filter (\<lambda>tm. fst tm \<le> T) (removalTimers s)"
  have ts: "toasts s = map toastOf (filter (liveAt T0) ?E)"
    and tm: "removalTimers s = map timerOf (filter (liveAt T0) ?E)"
    and cn: "toastCounterRef s = length ps"
    using assms(1) by (simp_all add: toastInv_def)
  have live: "\<And>e. liveAt T e \<Longrightarrow> liveAt T0 e"
    using assms(2) by (simp add: liveAt_def)
  have due1: "\<And>e. e \<in> set ?E \<Longrightarrow> liveAt T0 e \<Longrightarrow> \<not> liveAt T e
                \<Longrightarrow> toast_id (toastOf e) \<in> snd ` set ?due"
  proof -
    fix e assume e: "e \<in> set ?E" "liveAt T0 e" "\<not> liveAt T e"
    have "timerOf e \<in> set (removalTimers s)" using e(1,2) by (simp add: tm)
    moreover have "fst (timerOf e) \<le> T" using e(3) by (simp add: timerOf_def liveAt_def)
    ultimately have "timerOf e \<in> set ?due" by simp
    then have "snd (timerOf e) \<in> snd ` set ?due" by (rule imageI)
    then show "toast_id (toastOf e) \<in> snd ` set ?due" by (simp add: timerOf_def)
  qed
  have due2: "\<And>x. x \<in> snd ` set ?due
                \<Longrightarrow> \<exists>e. \<not> liveAt T e \<and> x = toast_id (toastOf e)"
  proof -
    fix x assume "x \<in> snd ` set ?due"
    then obtain d where d: "d \<in> set (removalTimers s)" "fst d \<le> T" "x = snd d" by auto
    from d(1) obtain e where e: "d = timerOf e" unfolding tm by auto
    have "\<not> liveAt T e" using d(2) by (simp add: e timerOf_def liveAt_def)
    moreover have "x = toast_id (toastOf e)" by (simp add: d(3) e timerOf_def)
    ultimately show "\<exists>e. \<not> liveAt T e \<and> x = toast_id (toastOf e)" by blast
  qed
  have rest: "filter (\<lambda>tm. \<not> fst tm \<le> T) (removalTimers s) = map timerOf (filter (liveAt T) ?E)"
  proof -
    have "filter (\<lambda>e. liveAt T0 e \<and> \<not> fst (timerOf e) \<le> T) ?E = filter (liveAt T) ?E"
      by (rule filter_cong) (use assms(2) in \<open>auto simp: timerOf_def liveAt_def\<close>)
    then show ?thesis by (simp add: tm filter_map comp_def)
  qed
  have keep: "filter (\<lambda>x. toast_id x \<notin> snd ` set ?due) (toasts s) = map toastOf (filter (liveAt T) ?E)"
    unfolding ts filter_map filter_filter
  proof (rule arg_cong [where f = "map toastOf"], rule filter_cong)
    fix e assume e: "e \<in> set ?E"
    show "(liveAt T0 e \<and> ((\<lambda>x. toast_id x \<notin> snd ` set ?due) \<circ> toastOf) e) = liveAt T e"
    proof
      assume a: "liveAt T0 e \<and> ((\<lambda>x. toast_id x \<notin> snd ` set ?due) \<circ> toastOf) e"
      have a0: "liveAt T0 e" using a by (rule conjunct1)
      have na: "toast_id (toastOf e) \<notin> snd ` set ?due"
        using conjunct2 [OF a] by simp
      show "liveAt T e"
      proof (rule ccontr)
        assume n: "\<not> liveAt T e"
        have "toast_id (toastOf e) \<in> snd ` set ?due" by (rule due1 [OF e a0 n])
        then show False using na by blast
      qed
    next
      assume l: "liveAt T e"
      have nd: "toast_id (toastOf e) \<notin> snd ` set ?due"
      proof
        assume "toast_id (toastOf e) \<in> snd ` set ?due"
        then obtain e' where "\<not> liveAt T e'" "toast_id (toastOf e) = toast_id (toastOf e')"
          using due2 by blast
        then show False using same_id_same_liveness l by blast
      qed
      show "liveAt T0 e \<and> ((\<lambda>x. toast_id x \<notin> snd ` set ?due) \<circ> toastOf) e"
        unfolding o_apply using live [OF l] nd by (rule conjI)
    qed
  qed simp
  have f: "toasts (expire T s) = filter (\<lambda>x. toast_id x \<notin> snd ` set ?due) (toasts s)"
     "removalTimers (expire T s) = filter (\<lambda>tm. \<not> fst tm \<le> T) (removalTimers s)"
     "toastCounterRef (expire T s) = toastCounterRef s"
    by (simp_all add: expire_def fold_removeToast)
  show ?thesis
    unfolding toastInv_def f keep rest cn by simp
qed

lemma showToast_inv:
  assumes "toastInv ps t s"
  shows "toastInv (ps @ [(t, m, k)]) t (showToast t m k s)"
  using assms
  by (simp add: toastInv_def showToast_def Let_def enumerate_append_eq liveAt_def toastOf_def timerOf_def)

lemma pushes_inv:
  assumes "toastInv ps0 T0 s" and "sorted (T0 # map fst ps)"
  shows "toastInv (ps0 @ ps) (last (T0 # map fst ps)) (pushes ps s)"
  using assms
proof (induction ps arbitrary: ps0 T0 s)
  case Nil
  then show ?case by simp
next
  case (Cons p ps)
  obtain t m k where p: "p = (t, m, k)" by (cases p)
  have le: "T0 \<le> t" and so: "sorted (t # map fst ps)"
    using Cons.prems(2) by (simp_all add: p)
  have i: "toastInv (ps0 @ [(t, m, k)]) t (showToast t m k (expire t s))"
    by (rule showToast_inv [OF expire_inv [OF Cons.prems(1) le]])
  have "toastInv ((ps0 @ [(t, m, k)]) @ ps) (last (t # map fst ps)) (pushes ps (showToast t m k (expire t s)))"
    by (rule Cons.IH [OF i so])
  then show ?case by (simp add: p)
qed

lemma initial_inv: "toastInv [] 0 initialToasts"
  by (simp add: toastInv_def initialToasts_def)

lemma toasts_after_pushes:
  assumes "sorted (map fst ps)" and "\<forall>p \<in> set ps. fst p \<le> T"
  shows "toastInv ps T (expire T (pushes ps initialToasts))"
proof -
  have s: "sorted (0 # map fst ps)" using assms(1) by simp
  have a: "toastInv ps (last (0 # map fst ps)) (pushes ps initialToasts)"
    using pushes_inv [OF initial_inv s] by simp
  have "last (0 # map fst ps) \<le> T"
    using assms(2) by (cases "ps = []") (simp_all add: last_map)
  then show ?thesis by (rule expire_inv [OF a])
qed

lemma id_collision:
  assumes "a * 1000 + i mod 1000 = b * 1000 + j mod 1000"
  shows "a = b \<and> i mod 1000 = (j::nat) mod 1000"
proof -
  have "(a * 1000 + i mod 1000) div 1000 = (b * 1000 + j mod 1000) div 1000"
    by (rule arg_cong [OF assms])
  then have ab: "a = b" by simp
  have "(a * 1000 + i mod 1000) mod 1000 = (b * 1000 + j mod 1000) mod 1000"
    by (rule arg_cong [OF assms])
  then have "i mod 1000 = j mod 1000" by simp
  then show ?thesis using ab by (rule conjI [rotated])
qed

lemma distinct_ids:
  assumes "\<forall>i j. i < j \<and> j < length ps \<and> fst (ps ! i) = fst (ps ! j) \<longrightarrow> j - i < 1000"
  shows "distinct (map (\<lambda>e. toast_id (toastOf e)) (enumerate 0 ps))"
proof -
  have "\<And>i j. i < j \<Longrightarrow> j < length ps \<Longrightarrow>
      toast_id (toastOf (i, ps ! i)) \<noteq> toast_id (toastOf (j, ps ! j))"
  proof
    fix i j assume ij: "i < j" "j < length ps"
      and eq: "toast_id (toastOf (i, ps ! i)) = toast_id (toastOf (j, ps ! j))"
    have "fst (ps ! i) * 1000 + i mod 1000 = fst (ps ! j) * 1000 + j mod 1000"
      using eq by (simp add: toastOf_def)
    then have c: "fst (ps ! i) = fst (ps ! j) \<and> i mod 1000 = j mod 1000"
      by (rule id_collision)
    then have lt: "j - i < 1000" using assms ij by blast
    have "j mod 1000 = i mod 1000" using c by simp
    then have "1000 dvd j - i" using ij(1) by (simp add: mod_eq_dvd_iff_nat)
    moreover have "0 < j - i" using ij(1) by simp
    ultimately have "1000 \<le> j - i" by (rule dvd_imp_le)
    then show False using lt by simp
  qed
  then have "\<And>i j. i < length ps \<Longrightarrow> j < length ps \<Longrightarrow> i \<noteq> j \<Longrightarrow>
      toast_id (toastOf (i, ps ! i)) \<noteq> toast_id (toastOf (j, ps ! j))"
  proof -
    fix i j assume h: "i < length ps" "j < length ps" "i \<noteq> j"
      and r: "\<And>i j. i < j \<Longrightarrow> j < length ps \<Longrightarrow>
        toast_id (toastOf (i, ps ! i)) \<noteq> toast_id (toastOf (j, ps ! j))"
    show "toast_id (toastOf (i, ps ! i)) \<noteq> toast_id (toastOf (j, ps ! j))"
    proof (cases "i < j")
      case True
      then show ?thesis using r h(2) by blast
    next
      case False
      then have "j < i" using h(3) by simp
      then show ?thesis using r [of j i] h(1) by simp
    qed
  qed
  then show ?thesis
    by (simp add: distinct_conv_nth nth_enumerate_eq)
qed

lemma toasts_same_instant:
  "toasts (pushes (replicate n (t, m, k)) initialToasts) = map toastOf (enumerate 0 (replicate n (t, m, k)))"
proof -
  let ?ps = "replicate n (t, m, k)"
  have "sorted (0 # map fst ?ps)" by (simp add: sorted_replicate)
  from pushes_inv [OF initial_inv this]
  have i: "toastInv ?ps (last (0 # map fst ?ps)) (pushes ?ps initialToasts)" by simp
  have "filter (liveAt (last (0 # map fst ?ps))) (enumerate 0 ?ps) = enumerate 0 ?ps"
    by (rule filter_True) (auto simp: liveAt_def in_set_enumerate_eq)
  then show ?thesis using i by (simp add: toastInv_def)
qed

text \<open>
  1001 toasts pushed within one millisecond: all of them are on display, and the
  first and the last have the same id.
\<close>

theorem toast_id_counterexample:
  "length (toasts (pushes (replicate 1001 (5, ''saved'', ToastSuccess)) initialToasts)) = 1001
   \<and> toast_id (toasts (pushes (replicate 1001 (5, ''saved'', ToastSuccess)) initialToasts) ! 0) = 5000
   \<and> toast_id (toasts (pushes (replicate 1001 (5, ''saved'', ToastSuccess)) initialToasts) ! 1000) = 5000"
  by (simp add: toasts_same_instant nth_enumerate_eq toastOf_def)

text \<open>
  Claim C9, as the code has it. Let the pushes happen at non-decreasing values of
  \<open>Date.now()\<close>, none later than \<open>T\<close>. Push number \<open>i\<close> at time \<open>t\<close> gets the id
  \<open>t * 1000 + i mod 1000\<close>. At time \<open>T\<close> the toasts on display are exactly those
  pushed less than 4000 ms ago, in the order they were pushed: each is removed when
  its own timer fires, 4000 ms after its push, and not before. The ids on display are
  pairwise distinct provided two pushes in the same millisecond are always fewer than
  1000 pushes apart. A push appends its removal timer and leaves the pending ones in
  place.
\<close>

theorem toast_ids_and_removal:
  assumes "sorted (map fst ps)" and "\<forall>p \<in> set ps. fst p \<le> T"
  shows "toasts (expire T (pushes ps initialToasts)) = map toastOf (filter (liveAt T) (enumerate 0 ps))
       \<and> ((\<forall>i j. i < j \<and> j < length ps \<and> fst (ps ! i) = fst (ps ! j) \<longrightarrow> j - i < 1000)
            \<longrightarrow> distinct (map toast_id (toasts (expire T (pushes ps initialToasts)))))
       \<and> (\<forall>t m k s. removalTimers (showToast t m k s) =
              removalTimers s @ [(t + 4000, t * 1000 + toastCounterRef s mod 1000)])"
proof -
  have a: "toasts (expire T (pushes ps initialToasts)) = map toastOf (filter (liveAt T) (enumerate 0 ps))"
    using toasts_after_pushes [OF assms] by (simp add: toastInv_def)
  have b: "distinct (map toast_id (toasts (expire T (pushes ps initialToasts))))"
    if h: "\<forall>i j. i < j \<and> j < length ps \<and> fst (ps ! i) = fst (ps ! j) \<longrightarrow> j - i < 1000"
  proof -
    have "distinct (map (\<lambda>e. toast_id (toastOf e)) (filter (liveAt T) (enumerate 0 ps)))"
      by (rule distinct_map_filter [OF distinct_ids [OF h]])
    then show ?thesis by (simp add: a comp_def)
  qed
  have c: "\<forall>t m k s. removalTimers (showToast t m k s) =
              removalTimers s @ [(t + 4000, t * 1000 + toastCounterRef s mod 1000)]"
    by (simp add: showToast_def Let_def)
  show ?thesis using a b c by blast
qed

theorem toast_ids_and_removal_witness:
  "sorted (map fst [(0::nat, ''a'', ToastSuccess), (0, ''b'', ToastError), (3000, ''c'', ToastSuccess)])
   \<and> toasts (expire 4500 (pushes [(0, ''a'', ToastSuccess), (0, ''b'', ToastError), (3000, ''c'', ToastSuccess)]
                 initialToasts))
       = [\<lparr>toast_id = 3000002, toast_message = ''c'', toast_type = ToastSuccess\<rparr>]
   \<and> toasts (expire 3000 (pushes [(0, ''a'', ToastSuccess), (0, ''b'', ToastError), (3000, ''c'', ToastSuccess)]
                 initialToasts))
       = [\<lparr>toast_id = 0, toast_message = ''a'', toast_type = ToastSuccess\<rparr>,
          \<lparr>toast_id = 1, toast_message = ''b'', toast_type = ToastError\<rparr>,
          \<lparr>toast_id = 3000002, toast_message = ''c'', toast_type = ToastSuccess\<rparr>]"
proof -
  let ?ps = "[(0::nat, ''a'', ToastSuccess), (0, ''b'', ToastError), (3000, ''c'', ToastSuccess)]"
  have h1: "sorted (map fst ?ps)" by simp
  have h2: "\<forall>p \<in> set ?ps. fst p \<le> 4500" by simp
  have h3: "\<forall>p \<in> set ?ps. fst p \<le> 3000" by simp
  note t1 = toast_ids_and_removal [OF h1 h2]
  note t2 = toast_ids_and_removal [OF h1 h3]
  have c1: "toasts (expire 4500 (pushes ?ps initialToasts))
       = [\<lparr>toast_id = 3000002, toast_message = ''c'', toast_type = ToastSuccess\<rparr>]"
    using conjunct1 [OF t1] by (simp add: liveAt_def toastOf_def enumerate_eq_zip upt_rec)
  have c2: "toasts (expire 3000 (pushes ?ps initialToasts))
       = [\<lparr>toast_id = 0, toast_message = ''a'', toast_type = ToastSuccess\<rparr>,
          \<lparr>toast_id = 1, toast_message = ''b'', toast_type = ToastError\<rparr>,
          \<lparr>toast_id = 3000002, toast_message = ''c'', toast_type = ToastSuccess\<rparr>]"
    using conjunct1 [OF t2] by (simp add: liveAt_def toastOf_def enumerate_eq_zip upt_rec)
  show ?thesis using h1 c1 c2 by simp
qed

end
